theory Spec2Isabelle
  imports Complex_Main
begin

section \<open>Heater tape control panel: entity model, migration, simulation, aggregation\<close>

text \<open>
  A shallow embedding of the state logic of \<^verbatim>\<open>src/pages/Index.tsx\<close>: the
  Tape / Segment / Sensor records, their constructors, the commands that the component
  passes to \<^verbatim>\<open>setTapes\<close> and \<^verbatim>\<open>setAlerts\<close>, the
  migration run by \<^verbatim>\<open>loadSettings\<close>, the three-second simulation tick
  and the derived metrics.

  Conventions of the embedding.
  \<^item> A JavaScript \<^verbatim>\<open>number\<close> that holds an identifier is a \<^typ>\<open>nat\<close>
    (the program allocates identifiers from 1 upwards) and one that holds a power or a
    target temperature is an \<^typ>\<open>int\<close>; arithmetic on them is exact, as it is on
    doubles below \<open>2^53\<close>.
  \<^item> A temperature, a random draw and every other fraction is the \<^typ>\<open>real\<close> value
    of a double, and every operation on them that a double can round (\<open>+\<close>, \<open>-\<close>,
    \<open>*\<close>, \<open>/\<close> and a decimal literal) is followed by \<open>fl\<close>, the rounding to the
    nearest double.
  \<^item> \<^verbatim>\<open>Math.random()\<close> reads the next element of an explicit infinite
    sequence, which every function that draws random numbers takes and returns.
  \<^item> \<^verbatim>\<open>new Date().toLocaleTimeString("ru-RU")\<close> is a parameter \<open>now\<close>.
  \<^item> A string is a list of bytes; text outside ASCII is written as its UTF-8 bytes.
  \<^item> \<^verbatim>\<open>Math.round x\<close> is \<open>\<lfloor>x + 1/2\<rfloor>\<close> (the nearest integer, ties go up),
    \<^verbatim>\<open>Math.floor\<close> is \<open>\<lfloor>x\<rfloor>\<close>, \<^verbatim>\<open>Math.ceil\<close> is \<open>\<lceil>x\<rceil>\<close>: the three are
    exact on a double.
\<close>

subsection \<open>Doubles\<close>

text \<open>
  The nearest integer, with a tie going to the even one.
\<close>

definition round_even :: "real \<Rightarrow> int" where
  "round_even y =
     (let n = \<lfloor>y\<rfloor>; f = y - of_int n
      in if f < 1 / 2 then n else if 1 / 2 < f then n + 1 else if even n then n else n + 1)"

text \<open>
  The double nearest to a real number (IEEE 754 binary64, round to nearest, ties to
  even): with \<open>2^e \<le> |x| < 2^(e+1)\<close> the doubles around \<open>x\<close> are the multiples of
  \<open>2^(e-52)\<close>. The exponent is not bounded: overflow to infinity (beyond about
  \<open>1.8 * 10^308\<close>) and the wider spacing of subnormal numbers (below about
  \<open>2.2 * 10^-308\<close>) are not modelled.
\<close>

definition fl :: "real \<Rightarrow> real" where
  "fl x =
     (if x = 0 then 0
      else (let e = \<lfloor>log 2 \<bar>x\<bar>\<rfloor>; q = 2 powi (e - 52)
            in of_int (round_even (x / q)) * q))"

subsection \<open>Random numbers and array construction\<close>

type_synonym rng = "nat \<Rightarrow> real"

definition Math_random :: "rng \<Rightarrow> real \<times> rng" where
  "Math_random g = (g 0, \<lambda>n. g (Suc n))"

text \<open>
  The contract of \<^verbatim>\<open>Math.random\<close>: every value is a double in \<open>[0, 1)\<close>, so it
  is at most \<open>1 - 2^-53\<close>, the largest double below 1.
\<close>

definition valid_rng :: "rng \<Rightarrow> bool" where
  "valid_rng g = (\<forall>n. 0 \<le> g n \<and> g n \<le> 1 - 1 / 2 ^ 53)"

text \<open>
  \<^verbatim>\<open>xs.map(f)\<close> for a callback that may draw random numbers: the elements are
  visited from left to right and the sequence is handed on.
\<close>

fun map_rng :: "('a \<Rightarrow> rng \<Rightarrow> 'b \<times> rng) \<Rightarrow> 'a list \<Rightarrow> rng \<Rightarrow> 'b list \<times> rng" where
  "map_rng f [] g = ([], g)"
| "map_rng f (x # xs) g =
     (let (y, g1) = f x g; (ys, g2) = map_rng f xs g1 in (y # ys, g2))"

text \<open>\<^verbatim>\<open>Array.from({ length: n }, (_, i) => f(i))\<close>.\<close>

definition Array_from :: "nat \<Rightarrow> (nat \<Rightarrow> rng \<Rightarrow> 'a \<times> rng) \<Rightarrow> rng \<Rightarrow> 'a list \<times> rng" where
  "Array_from n f g = map_rng f [0..<n] g"

subsection \<open>Strings\<close>

text \<open>\<^verbatim>\<open>String(n)\<close> for a non-negative integer: its decimal digits.\<close>

fun String_nat :: "nat \<Rightarrow> string" where
  "String_nat n =
     (if n < 10 then [''0123456789'' ! n]
      else String_nat (n div 10) @ [''0123456789'' ! (n mod 10)])"

declare String_nat.simps [simp del]

text \<open>\<^verbatim>\<open>n.toString(16).toUpperCase()\<close> for a non-negative integer.\<close>

fun toString16_upper :: "nat \<Rightarrow> string" where
  "toString16_upper n =
     (if n < 16 then [''0123456789ABCDEF'' ! n]
      else toString16_upper (n div 16) @ [''0123456789ABCDEF'' ! (n mod 16)])"

declare toString16_upper.simps [simp del]

text \<open>\<^verbatim>\<open>s.padStart(n, c)\<close> for a one-character filler.\<close>

definition padStart :: "nat \<Rightarrow> char \<Rightarrow> string \<Rightarrow> string" where
  "padStart n c s = replicate (n - length s) c @ s"

text \<open>
  \<^verbatim>\<open>x.toFixed(1)\<close>: the sign, then the integer nearest to \<open>10 * |x|\<close> (the larger
  one on a tie) with a point before its last digit; the integer is chosen on the exact
  value of the double \<open>x\<close>. The exponent notation of values from \<open>10^21\<close> on is not
  modelled.
\<close>

definition toFixed1 :: "real \<Rightarrow> string" where
  "toFixed1 x =
     (let n = nat \<lfloor>\<bar>x\<bar> * 10 + 1 / 2\<rfloor>
      in (if x < 0 then ''-'' else '''') @ String_nat (n div 10) @ ''.'' @ String_nat (n mod 10))"

text \<open>The Cyrillic words and the signs of the source, as UTF-8 bytes.\<close>

definition str_Segment :: string where
  \<comment> \<open>the word for "segment" and a space\<close>
  "str_Segment = [CHR 0xD0, CHR 0xA1, CHR 0xD0, CHR 0xB5, CHR 0xD0, CHR 0xB3, CHR 0xD0, CHR 0xBC,
                  CHR 0xD0, CHR 0xB5, CHR 0xD0, CHR 0xBD, CHR 0xD1, CHR 0x82, CHR 0x20]"

definition str_Tape :: string where
  \<comment> \<open>the word for "tape" and a space\<close>
  "str_Tape = [CHR 0xD0, CHR 0x9B, CHR 0xD0, CHR 0xB5, CHR 0xD0, CHR 0xBD, CHR 0xD1, CHR 0x82,
               CHR 0xD0, CHR 0xB0, CHR 0x20]"

definition str_numero :: string where
  \<comment> \<open>the numero sign U+2116\<close>
  "str_numero = [CHR 0xE2, CHR 0x84, CHR 0x96]"

definition str_dash :: string where
  \<comment> \<open>the em dash U+2014\<close>
  "str_dash = [CHR 0xE2, CHR 0x80, CHR 0x94]"

subsection \<open>The data model\<close>

datatype sensor_status = Online | Offline | SensorError

record Sensor =
  sensor_id :: string
  sensor_serial :: string
  sensor_temperature :: real
  sensor_status :: sensor_status
  sensor_lastUpdate :: string

datatype segment_status = Normal | Warning | Critical | Off

record Segment =
  seg_id :: nat
  seg_name :: string
  seg_enabled :: bool
  seg_power :: int
  seg_temperature :: real
  seg_targetTemp :: int
  seg_status :: segment_status
  seg_sensorId :: string
  seg_sensors :: "Sensor list"

record Tape =
  tape_id :: nat
  tape_name :: string
  tape_coordinates :: string
  tape_contractNumber :: string
  tape_length :: string
  tape_width :: string
  tape_segments :: "Segment list"
  tape_enabled :: bool

datatype severity = Low | Medium | High | CriticalSeverity

record Alert =
  alert_id :: nat
  alert_timestamp :: string
  alert_severity :: severity
  alert_message :: string
  alert_acknowledged :: bool

subsection \<open>Constructors\<close>

definition hex :: "rng \<Rightarrow> string \<times> rng" where
  "hex g = (let (r, g1) = Math_random g
            in (padStart 2 CHR ''0'' (toString16_upper (nat \<lfloor>fl (r * 256)\<rfloor>)), g1))"

definition generateSerial :: "rng \<Rightarrow> string \<times> rng" where
  "generateSerial g =
     (let (h1, g1) = hex g; (h2, g2) = hex g1; (h3, g3) = hex g2;
          (h4, g4) = hex g3; (h5, g5) = hex g4; (h6, g6) = hex g5
      in (''28-'' @ h1 @ h2 @ h3 @ h4 @ h5 @ h6, g6))"

definition createSensor :: "string \<Rightarrow> nat \<Rightarrow> nat \<Rightarrow> rng \<Rightarrow> Sensor \<times> rng" where
  \<comment> \<open>the callback of \<^verbatim>\<open>createSensors\<close> at index \<open>j\<close>\<close>
  "createSensor now segId j g =
     (let (serial, g1) = generateSerial g;
          (r2, g2) = Math_random g1;
          (r3, g3) = Math_random g2
      in (\<lparr> sensor_id = ''DS18B20-'' @ padStart 2 CHR ''0'' (String_nat segId)
                           @ padStart 2 CHR ''0'' (String_nat (j + 1)),
             sensor_serial = serial,
             sensor_temperature = -5 + of_int \<lfloor>fl (r2 * 15)\<rfloor>,
             sensor_status = (if r3 > fl (9 / 10) then Offline else Online),
             sensor_lastUpdate = now \<rparr>, g3))"

definition createSensors :: "string \<Rightarrow> nat \<Rightarrow> nat \<Rightarrow> rng \<Rightarrow> Sensor list \<times> rng" where
  "createSensors now segId count g = Array_from count (createSensor now segId) g"

text \<open>
  \<^verbatim>\<open>createSegment\<close>. The object literal is evaluated field by field, so the draw
  for \<open>power\<close> comes before the draw for \<open>status\<close>, and the latter happens only for
  an enabled segment. With a sequence inside \<open>[0, 1)\<close> the sensor count is at least 2
  and the mean is a proper quotient. The sensor temperatures are integers, so is the
  sum that \<^verbatim>\<open>reduce\<close> builds.
\<close>

definition createSegment :: "string \<Rightarrow> nat \<Rightarrow> bool \<Rightarrow> rng \<Rightarrow> Segment \<times> rng" where
  "createSegment now i enabled g =
     (let (r1, g1) = Math_random g;
          sensorCount = 2 + \<lfloor>fl (r1 * 3)\<rfloor>;
          (sensors, g2) = createSensors now i (nat sensorCount) g1;
          avgTemp = fl (foldl (\<lambda>a s. fl (a + sensor_temperature s)) 0 sensors
                        / real (length sensors));
          (r2, g3) = Math_random g2;
          (st, g4) = (if enabled
                      then (let (r3, g') = Math_random g3
                            in (if r3 > fl (8 / 10) then Warning else Normal, g'))
                      else (Off, g3))
      in (\<lparr> seg_id = i,
             seg_name = str_Segment @ String_nat i,
             seg_enabled = enabled,
             seg_power = 40 + \<lfloor>fl (r2 * 50)\<rfloor>,
             seg_temperature = fl (of_int \<lfloor>fl (avgTemp * 10) + 1 / 2\<rfloor> / 10),
             seg_targetTemp = 5,
             seg_status = st,
             seg_sensorId = ''DS18B20-'' @ padStart 3 CHR ''0'' (String_nat i),
             seg_sensors = sensors \<rparr>, g4))"

definition createTape :: "string \<Rightarrow> nat \<Rightarrow> nat \<Rightarrow> nat \<Rightarrow> rng \<Rightarrow> Tape \<times> rng" where
  "createTape now i segStartId segCount g =
     (let (segments, g1) =
            Array_from segCount
              (\<lambda>k. createSegment now (segStartId + k)
                     (int k < \<lceil>fl (real segCount * fl (7 / 10))\<rceil>)) g
      in (\<lparr> tape_id = i,
             tape_name = str_Tape @ String_nat i,
             tape_coordinates = '''',
             tape_contractNumber = '''',
             tape_length = ''24'',
             tape_width = ''50'',
             tape_segments = segments,
             tape_enabled = True \<rparr>, g1))"

definition createInitialTapes :: "string \<Rightarrow> rng \<Rightarrow> Tape list \<times> rng" where
  "createInitialTapes now g =
     (let (t1, g1) = createTape now 1 1 6 g;
          (t2, g2) = createTape now 2 7 6 g1
      in ([t1\<lparr> tape_coordinates := ''55.7558, 37.6173'',
                 tape_contractNumber := str_numero @ ''2024-001'' \<rparr>,
           t2\<lparr> tape_coordinates := ''55.7600, 37.6200'',
                 tape_contractNumber := str_numero @ ''2024-002'' \<rparr>], g2))"

text \<open>
  \<^verbatim>\<open>getMaxSegId\<close>: \<^verbatim>\<open>Math.max\<close> is applied to a non-empty list only.
\<close>

definition getMaxSegId :: "Tape list \<Rightarrow> nat" where
  "getMaxSegId tapes =
     (case map seg_id (concat (map tape_segments tapes)) of
        [] \<Rightarrow> 0
      | x # xs \<Rightarrow> fold max xs x)"

subsection \<open>Commands on the tapes\<close>

text \<open>
  Each command is the function that the component hands to \<^verbatim>\<open>setTapes\<close>: from
  the previous list of tapes to the next one. Only \<^verbatim>\<open>addTape\<close> and
  \<^verbatim>\<open>addSegmentToTape\<close> draw random numbers and read the clock.
\<close>

definition toggleTape :: "nat \<Rightarrow> Tape list \<Rightarrow> Tape list" where
  "toggleTape tapeId prev =
     map (\<lambda>t. if tape_id t = tapeId then t\<lparr> tape_enabled := \<not> tape_enabled t \<rparr> else t) prev"

text \<open>
  \<^verbatim>\<open>updateTapeField\<close> takes the field as a string; its callers pass the five names
  below, which are the fields it can replace by a string.
\<close>

datatype tape_field = FName | FCoordinates | FContractNumber | FLength | FWidth

fun set_field :: "tape_field \<Rightarrow> string \<Rightarrow> Tape \<Rightarrow> Tape" where
  "set_field FName v t = t\<lparr> tape_name := v \<rparr>"
| "set_field FCoordinates v t = t\<lparr> tape_coordinates := v \<rparr>"
| "set_field FContractNumber v t = t\<lparr> tape_contractNumber := v \<rparr>"
| "set_field FLength v t = t\<lparr> tape_length := v \<rparr>"
| "set_field FWidth v t = t\<lparr> tape_width := v \<rparr>"

definition updateTapeField :: "nat \<Rightarrow> tape_field \<Rightarrow> string \<Rightarrow> Tape list \<Rightarrow> Tape list" where
  "updateTapeField tapeId field v prev =
     map (\<lambda>t. if tape_id t = tapeId then set_field field v t else t) prev"

definition addTape :: "string \<Rightarrow> Tape list \<Rightarrow> rng \<Rightarrow> Tape list \<times> rng" where
  "addTape now prev g =
     (let maxTapeId = foldl (\<lambda>m t. max m (tape_id t)) 0 prev;
          maxSeg = getMaxSegId prev;
          (t, g1) = createTape now (maxTapeId + 1) (maxSeg + 1) 4 g
      in (prev @ [t], g1))"

definition removeTape :: "nat \<Rightarrow> Tape list \<Rightarrow> Tape list" where
  "removeTape tapeId prev =
     (if length prev > 1 then filter (\<lambda>t. tape_id t \<noteq> tapeId) prev else prev)"

definition addSegmentToTape :: "string \<Rightarrow> nat \<Rightarrow> Tape list \<Rightarrow> rng \<Rightarrow> Tape list \<times> rng" where
  "addSegmentToTape now tapeId prev g =
     (let maxSeg = getMaxSegId prev
      in map_rng
           (\<lambda>t h. if tape_id t = tapeId
                  then (let (s, h1) = createSegment now (maxSeg + 1) False h
                        in (t\<lparr> tape_segments := tape_segments t @ [s] \<rparr>, h1))
                  else (t, h))
           prev g)"

definition removeSegmentFromTape :: "nat \<Rightarrow> nat \<Rightarrow> Tape list \<Rightarrow> Tape list" where
  "removeSegmentFromTape tapeId segId prev =
     map (\<lambda>t. if tape_id t = tapeId
              then t\<lparr> tape_segments :=
                       (if length (tape_segments t) > 1
                        then filter (\<lambda>s. seg_id s \<noteq> segId) (tape_segments t)
                        else tape_segments t) \<rparr>
              else t) prev"

definition toggleSegment :: "nat \<Rightarrow> nat \<Rightarrow> Tape list \<Rightarrow> Tape list" where
  "toggleSegment tapeId segId prev =
     map (\<lambda>t. if tape_id t = tapeId
              then t\<lparr> tape_segments :=
                       map (\<lambda>s. if seg_id s = segId
                                then s\<lparr> seg_enabled := \<not> seg_enabled s,
                                        seg_status := (if \<not> seg_enabled s then Normal else Off) \<rparr>
                                else s) (tape_segments t) \<rparr>
              else t) prev"

definition setSegPower :: "nat \<Rightarrow> nat \<Rightarrow> int \<Rightarrow> Tape list \<Rightarrow> Tape list" where
  "setSegPower tapeId segId pw prev =
     map (\<lambda>t. if tape_id t = tapeId
              then t\<lparr> tape_segments :=
                       map (\<lambda>s. if seg_id s = segId then s\<lparr> seg_power := pw \<rparr> else s)
                         (tape_segments t) \<rparr>
              else t) prev"

definition setSegTargetTemp :: "nat \<Rightarrow> nat \<Rightarrow> int \<Rightarrow> Tape list \<Rightarrow> Tape list" where
  "setSegTargetTemp tapeId segId targetTemp prev =
     map (\<lambda>t. if tape_id t = tapeId
              then t\<lparr> tape_segments :=
                       map (\<lambda>s. if seg_id s = segId then s\<lparr> seg_targetTemp := targetTemp \<rparr> else s)
                         (tape_segments t) \<rparr>
              else t) prev"

text \<open>The two bulk buttons of a tape card (their handlers are written inline).\<close>

definition enableAllSegments :: "nat \<Rightarrow> Tape list \<Rightarrow> Tape list" where
  "enableAllSegments tapeId prev =
     map (\<lambda>t. if tape_id t = tapeId
              then t\<lparr> tape_segments :=
                       map (\<lambda>s. s\<lparr> seg_enabled := True, seg_status := Normal \<rparr>) (tape_segments t) \<rparr>
              else t) prev"

definition disableAllSegments :: "nat \<Rightarrow> Tape list \<Rightarrow> Tape list" where
  "disableAllSegments tapeId prev =
     map (\<lambda>t. if tape_id t = tapeId
              then t\<lparr> tape_segments :=
                       map (\<lambda>s. s\<lparr> seg_enabled := False, seg_status := Off \<rparr>) (tape_segments t) \<rparr>
              else t) prev"

subsection \<open>The simulation tick\<close>

definition tick_segment :: "Tape \<Rightarrow> Segment \<Rightarrow> rng \<Rightarrow> Segment \<times> rng" where
  \<comment> \<open>the callback of the inner \<^verbatim>\<open>map\<close> of the interval handler\<close>
  "tick_segment t s g =
     (if \<not> seg_enabled s \<or> \<not> tape_enabled t then (s, g)
      else (let (r, g1) = Math_random g;
                drift = fl (fl (r - 1 / 2) * (3 / 2));
                newTemp = fl (of_int \<lfloor>fl (fl (seg_temperature s + drift) * 10) + 1 / 2\<rfloor> / 10)
            in (s\<lparr> seg_temperature := newTemp \<rparr>, g1)))"

definition tick_tape :: "Tape \<Rightarrow> rng \<Rightarrow> Tape \<times> rng" where
  "tick_tape t g =
     (let (segs, g1) = map_rng (tick_segment t) (tape_segments t) g
      in (t\<lparr> tape_segments := segs \<rparr>, g1))"

definition tick :: "Tape list \<Rightarrow> rng \<Rightarrow> Tape list \<times> rng" where
  "tick prev g = map_rng tick_tape prev g"

text \<open>
  A temperature rounded to one decimal place: the double nearest to a decimal number with
  one digit after the point.
\<close>

definition one_decimal :: "real \<Rightarrow> bool" where
  "one_decimal x = (\<exists>k :: int. x = fl (of_int k / 10))"

subsection \<open>Alerts\<close>

definition acknowledgeAlert :: "nat \<Rightarrow> Alert list \<Rightarrow> Alert list" where
  "acknowledgeAlert i prev =
     map (\<lambda>a. if alert_id a = i then a\<lparr> alert_acknowledged := True \<rparr> else a) prev"

subsection \<open>Derived metrics\<close>

definition allSegments :: "Tape list \<Rightarrow> Segment list" where
  "allSegments tapes = concat (map tape_segments tapes)"

definition enabledSegments :: "Tape list \<Rightarrow> Segment list" where
  "enabledSegments tapes = filter seg_enabled (allSegments tapes)"

definition activeCount :: "Tape list \<Rightarrow> nat" where
  "activeCount tapes = length (enabledSegments tapes)"

definition avgTemp :: "Tape list \<Rightarrow> string" where
  "avgTemp tapes =
     (if activeCount tapes > 0
      then toFixed1 (fl (foldl (\<lambda>acc s. fl (acc + seg_temperature s)) 0 (enabledSegments tapes)
                          / real (activeCount tapes)))
      else str_dash)"

definition totalPower :: "Tape list \<Rightarrow> string" where
  "totalPower tapes =
     toFixed1 (foldl (\<lambda>acc s. fl (acc + fl (fl (real_of_int (seg_power s) / 100) * (1 / 2)))) 0
                 (enabledSegments tapes))"

definition activeTapes :: "Tape list \<Rightarrow> nat" where
  "activeTapes tapes = length (filter tape_enabled tapes)"

definition totalSensors :: "Tape list \<Rightarrow> nat" where
  "totalSensors tapes = foldl (\<lambda>a s. a + length (seg_sensors s)) 0 (allSegments tapes)"

subsection \<open>Runs of commands\<close>

text \<open>
  The state that the commands and the tick share is the list of tapes; the model adds
  the random sequence. A run pairs every step with the clock reading of its moment.
\<close>

datatype command =
    Tick
  | ToggleTape nat
  | UpdateTapeField nat tape_field string
  | AddTape
  | RemoveTape nat
  | AddSegmentToTape nat
  | RemoveSegmentFromTape nat nat
  | ToggleSegment nat nat
  | SetSegPower nat nat int
  | SetSegTargetTemp nat nat int
  | EnableAllSegments nat
  | DisableAllSegments nat

fun exec :: "string \<Rightarrow> command \<Rightarrow> Tape list \<times> rng \<Rightarrow> Tape list \<times> rng" where
  "exec now Tick (ts, g) = tick ts g"
| "exec now (ToggleTape i) (ts, g) = (toggleTape i ts, g)"
| "exec now (UpdateTapeField i f v) (ts, g) = (updateTapeField i f v ts, g)"
| "exec now AddTape (ts, g) = addTape now ts g"
| "exec now (RemoveTape i) (ts, g) = (removeTape i ts, g)"
| "exec now (AddSegmentToTape i) (ts, g) = addSegmentToTape now i ts g"
| "exec now (RemoveSegmentFromTape i j) (ts, g) = (removeSegmentFromTape i j ts, g)"
| "exec now (ToggleSegment i j) (ts, g) = (toggleSegment i j ts, g)"
| "exec now (SetSegPower i j p) (ts, g) = (setSegPower i j p ts, g)"
| "exec now (SetSegTargetTemp i j p) (ts, g) = (setSegTargetTemp i j p ts, g)"
| "exec now (EnableAllSegments i) (ts, g) = (enableAllSegments i ts, g)"
| "exec now (DisableAllSegments i) (ts, g) = (disableAllSegments i ts, g)"

fun run :: "(string \<times> command) list \<Rightarrow> Tape list \<times> rng \<Rightarrow> Tape list \<times> rng" where
  "run [] st = st"
| "run ((now, c) # cs) st = run cs (exec now c st)"

text \<open>The states reachable from the freshly generated default system.\<close>

inductive reachable :: "Tape list \<times> rng \<Rightarrow> bool" where
  init: "valid_rng g \<Longrightarrow> reachable (createInitialTapes now g)"
| step: "reachable st \<Longrightarrow> reachable (exec now c st)"

fun is_add :: "command \<Rightarrow> bool" where
  "is_add AddTape = True"
| "is_add (AddSegmentToTape i) = True"
| "is_add c = False"

subsection \<open>Persisted settings and their migration\<close>

text \<open>
  The value that \<^verbatim>\<open>JSON.parse\<close> returns is read through casts, and the code
  asks which properties are there. In the records of the parsed blob a property that may
  be missing is an option: \<open>None\<close> stands for a property that is missing or null, which
  the tests of the code (\<^verbatim>\<open>??\<close>, \<^verbatim>\<open>||\<close>, \<^verbatim>\<open>!\<close>) do not tell apart. The
  switch of a tape is compared with \<^verbatim>\<open>undefined\<close>, which a stored null is not, so
  it has the three cases of its own. The blob under the storage key is an option too:
  \<open>None\<close> when the key holds nothing or its text does not parse, the two cases in which
  \<^verbatim>\<open>loadSettings\<close> returns null.
\<close>

datatype stored_switch = Undefined | Null | Switch bool

record JSegment =
  js_id :: nat
  js_name :: string
  js_enabled :: bool
  js_power :: int
  js_temperature :: real
  js_targetTemp :: int
  js_status :: segment_status
  js_sensorId :: string
  js_sensors :: "Sensor list option"

record JTape =
  jt_id :: nat
  jt_name :: string
  jt_coordinates :: "string option"
  jt_contractNumber :: "string option"
  jt_length :: "string option"
  jt_width :: "string option"
  jt_segments :: "JSegment list option"
  jt_enabled :: stored_switch

record Blob =
  b_segments :: "JSegment list option"
  b_tapes :: "JTape list option"
  b_tapeLength :: "string option"
  b_tapeWidth :: "string option"
  b_alerts :: "Alert list option"
  b_systemOn :: "bool option"
  b_autoMode :: "bool option"
  b_thresholdTemp :: "string option"
  b_alertSound :: "string option"
  b_pollInterval :: "string option"

text \<open>\<^verbatim>\<open>x ?? d\<close> on a property that may be missing.\<close>

definition nullish :: "'a option \<Rightarrow> 'a \<Rightarrow> 'a" where
  "nullish x d = (case x of None \<Rightarrow> d | Some v \<Rightarrow> v)"

text \<open>\<^verbatim>\<open>x || d\<close> on a string that may be missing: the empty string is falsy.\<close>

definition or_string :: "string option \<Rightarrow> string \<Rightarrow> string" where
  "or_string x d = (case x of None \<Rightarrow> d | Some v \<Rightarrow> if v = [] then d else v)"

definition migrateSegment :: "string \<Rightarrow> JSegment \<Rightarrow> rng \<Rightarrow> JSegment \<times> rng" where
  \<comment> \<open>the callback of \<^verbatim>\<open>migrateSegments\<close>\<close>
  "migrateSegment now s g =
     (case js_sensors s of
        None \<Rightarrow>
          (let (r, g1) = Math_random g;
               (sensors, g2) = createSensors now (js_id s) (nat (2 + \<lfloor>fl (r * 3)\<rfloor>)) g1
           in (s\<lparr> js_sensors := Some sensors \<rparr>, g2))
      | Some ss \<Rightarrow> (s, g))"

definition migrateSegments :: "string \<Rightarrow> JSegment list \<Rightarrow> rng \<Rightarrow> JSegment list \<times> rng" where
  "migrateSegments now segs g = map_rng (migrateSegment now) segs g"

definition migrateTape :: "string \<Rightarrow> JTape \<Rightarrow> rng \<Rightarrow> JTape \<times> rng" where
  \<comment> \<open>the callback of \<^verbatim>\<open>migrateTapes\<close>\<close>
  "migrateTape now t g =
     (let (segs, g1) = migrateSegments now (nullish (jt_segments t) []) g
      in (t\<lparr> jt_coordinates := Some (nullish (jt_coordinates t) []),
              jt_contractNumber := Some (nullish (jt_contractNumber t) []),
              jt_length := Some (nullish (jt_length t) ''24''),
              jt_width := Some (nullish (jt_width t) ''50''),
              jt_enabled := (if jt_enabled t \<noteq> Undefined then jt_enabled t else Switch True),
              jt_segments := Some segs \<rparr>, g1))"

definition migrateTapes :: "string \<Rightarrow> JTape list \<Rightarrow> rng \<Rightarrow> JTape list \<times> rng" where
  "migrateTapes now tapes g = map_rng (migrateTape now) tapes g"

text \<open>
  The two steps of \<^verbatim>\<open>loadSettings\<close> on a parsed blob: the legacy shape (a
  \<open>segments\<close> array and no \<open>tapes\<close>) becomes one tape, then every tape is normalised.
\<close>

definition migrateLegacy :: "string \<Rightarrow> Blob \<Rightarrow> rng \<Rightarrow> Blob \<times> rng" where
  "migrateLegacy now parsed g =
     (case (b_segments parsed, b_tapes parsed) of
        (Some segs, None) \<Rightarrow>
          (let (migratedSegs, g1) = migrateSegments now segs g
           in (parsed\<lparr> b_tapes := Some [\<lparr> jt_id = 1,
                                            jt_name = str_Tape @ ''1'',
                                            jt_coordinates = Some [],
                                            jt_contractNumber = Some [],
                                            jt_length = Some (or_string (b_tapeLength parsed) ''24''),
                                            jt_width = Some (or_string (b_tapeWidth parsed) ''50''),
                                            jt_segments = Some migratedSegs,
                                            jt_enabled = Switch True \<rparr>],
                       b_segments := None \<rparr>, g1))
      | _ \<Rightarrow> (parsed, g))"

definition migrate :: "string \<Rightarrow> Blob \<Rightarrow> rng \<Rightarrow> Blob \<times> rng" where
  "migrate now parsed g =
     (let (p1, g1) = migrateLegacy now parsed g
      in (case b_tapes p1 of
            None \<Rightarrow> (p1, g1)
          | Some ts \<Rightarrow> (let (ts', g2) = migrateTapes now ts g1
                        in (p1\<lparr> b_tapes := Some ts' \<rparr>, g2))))"

definition loadSettings :: "string \<Rightarrow> Blob option \<Rightarrow> rng \<Rightarrow> Blob option \<times> rng" where
  "loadSettings now storage g =
     (case storage of
        None \<Rightarrow> (None, g)
      | Some parsed \<Rightarrow> (let (p, g1) = migrate now parsed g in (Some p, g1)))"

text \<open>
  The current shape of a stored tape: every property that \<^verbatim>\<open>migrateTapes\<close> fills
  in is there, and every segment has its \<open>sensors\<close> array.
\<close>

definition has_sensors :: "JSegment \<Rightarrow> bool" where
  "has_sensors s = (js_sensors s \<noteq> None)"

definition current_tape :: "JTape \<Rightarrow> bool" where
  "current_tape t =
     (jt_coordinates t \<noteq> None \<and> jt_contractNumber t \<noteq> None \<and> jt_length t \<noteq> None
      \<and> jt_width t \<noteq> None \<and> jt_enabled t \<noteq> Undefined
      \<and> (case jt_segments t of None \<Rightarrow> False
          | Some segs \<Rightarrow> list_all has_sensors segs))"

subsection \<open>Invariants\<close>

text \<open>
  The identifiers of a state, tape by tape: on this list the commands that add or remove
  tapes and segments act by appending and filtering.
\<close>

definition shape :: "Tape list \<Rightarrow> (nat \<times> nat list) list" where
  "shape ts = map (\<lambda>t. (tape_id t, map seg_id (tape_segments t))) ts"

text \<open>No two tapes share an id and no two segments, of the same tape or not, share an id.\<close>

definition unique_ids :: "Tape list \<Rightarrow> bool" where
  "unique_ids ts = (distinct (map tape_id ts) \<and> distinct (map seg_id (allSegments ts)))"

text \<open>There is a tape, and every tape has a segment.\<close>

definition nonempty_tapes :: "Tape list \<Rightarrow> bool" where
  "nonempty_tapes ts = (ts \<noteq> [] \<and> list_all (\<lambda>t. tape_segments t \<noteq> []) ts)"

text \<open>The two conditions on the list of identifiers.\<close>

definition sh_unique :: "(nat \<times> nat list) list \<Rightarrow> bool" where
  "sh_unique sh = (distinct (map fst sh) \<and> distinct (concat (map snd sh)))"

definition sh_nonempty :: "(nat \<times> nat list) list \<Rightarrow> bool" where
  "sh_nonempty sh = (sh \<noteq> [] \<and> (\<forall>p \<in> set sh. snd p \<noteq> []))"

text \<open>The segment invariant: the status is \<open>off\<close> exactly when the segment is disabled.\<close>

definition status_ok :: "Segment \<Rightarrow> bool" where
  "status_ok s = ((seg_status s = Off) = (\<not> seg_enabled s))"

definition all_status_ok :: "Tape list \<Rightarrow> bool" where
  "all_status_ok ts = list_all (\<lambda>t. list_all status_ok (tape_segments t)) ts"

subsection \<open>Sample states\<close>

text \<open>Small concrete values on which the theorems below are instantiated.\<close>

definition sample_sensor :: "nat \<Rightarrow> Sensor" where
  "sample_sensor i =
     \<lparr> sensor_id = ''DS18B20-'' @ padStart 2 CHR ''0'' (String_nat i) @ ''01'',
       sensor_serial = ''28-0A1B2C3D4E5F'',
       sensor_temperature = 2,
       sensor_status = Online,
       sensor_lastUpdate = ''12:00:00'' \<rparr>"

definition sample_segment :: "nat \<Rightarrow> bool \<Rightarrow> real \<Rightarrow> Segment" where
  "sample_segment i en temp =
     \<lparr> seg_id = i,
       seg_name = str_Segment @ String_nat i,
       seg_enabled = en,
       seg_power = 60,
       seg_temperature = temp,
       seg_targetTemp = 5,
       seg_status = (if en then Normal else Off),
       seg_sensorId = ''DS18B20-'' @ padStart 3 CHR ''0'' (String_nat i),
       seg_sensors = [sample_sensor i] \<rparr>"

definition sample_tape :: "nat \<Rightarrow> bool \<Rightarrow> Segment list \<Rightarrow> Tape" where
  "sample_tape i en segs =
     \<lparr> tape_id = i,
       tape_name = str_Tape @ String_nat i,
       tape_coordinates = [],
       tape_contractNumber = [],
       tape_length = ''24'',
       tape_width = ''50'',
       tape_segments = segs,
       tape_enabled = en \<rparr>"

definition sample_alert :: "nat \<Rightarrow> bool \<Rightarrow> Alert" where
  "sample_alert i ack =
     \<lparr> alert_id = i,
       alert_timestamp = ''13.02.2026 14:32'',
       alert_severity = High,
       alert_message = ''DS18B20-011'',
       alert_acknowledged = ack \<rparr>"

definition sample_jsegment :: "nat \<Rightarrow> Sensor list option \<Rightarrow> JSegment" where
  "sample_jsegment i ss =
     \<lparr> js_id = i,
       js_name = str_Segment @ String_nat i,
       js_enabled = True,
       js_power = 60,
       js_temperature = 2,
       js_targetTemp = 5,
       js_status = Normal,
       js_sensorId = ''DS18B20-'' @ padStart 3 CHR ''0'' (String_nat i),
       js_sensors = ss \<rparr>"

definition sample_blob :: "JSegment list option \<Rightarrow> JTape list option \<Rightarrow> Blob" where
  "sample_blob segs tapes =
     \<lparr> b_segments = segs,
       b_tapes = tapes,
       b_tapeLength = Some ''30'',
       b_tapeWidth = None,
       b_alerts = None,
       b_systemOn = Some True,
       b_autoMode = Some True,
       b_thresholdTemp = Some ''5'',
       b_alertSound = Some ''true'',
       b_pollInterval = Some ''2'' \<rparr>"

definition sample_two_tapes :: "Tape list" where
  \<comment> \<open>two tapes of six segments each, with the segment ids 1 to 12\<close>
  "sample_two_tapes =
     [sample_tape 1 True (map (\<lambda>i. sample_segment i True 2) [1..<7]),
      sample_tape 2 True (map (\<lambda>i. sample_segment i True 2) [7..<13])]"

definition sample_mixed_tapes :: "Tape list" where
  \<comment> \<open>an enabled tape with an enabled and a disabled segment, and a disabled tape\<close>
  "sample_mixed_tapes =
     [sample_tape 1 True [sample_segment 1 True 2, sample_segment 2 False 3],
      sample_tape 2 False [sample_segment 3 True 4]]"

definition sample_jtape :: "nat \<Rightarrow> JSegment list option \<Rightarrow> JTape" where
  \<comment> \<open>a stored tape written before the location fields and the switch were added\<close>
  "sample_jtape i segs =
     \<lparr> jt_id = i,
       jt_name = str_Tape @ String_nat i,
       jt_coordinates = None,
       jt_contractNumber = None,
       jt_length = Some ''30'',
       jt_width = None,
       jt_segments = segs,
       jt_enabled = Undefined \<rparr>"

definition sample_legacy_blob :: Blob where
  \<comment> \<open>the legacy shape: a flat \<open>segments\<close> array, the first segment without sensors\<close>
  "sample_legacy_blob =
     sample_blob (Some [sample_jsegment 1 None, sample_jsegment 2 (Some [sample_sensor 2])]) None"


section \<open>Auxiliary facts\<close>

subsection \<open>Doubles\<close>

lemma round_even_close: "\<bar>of_int (round_even y) - y\<bar> \<le> 1 / 2"
proof -
  have "of_int \<lfloor>y\<rfloor> \<le> y" "y < of_int \<lfloor>y\<rfloor> + 1" by linarith+
  then show ?thesis by (auto simp: round_even_def Let_def)
qed

lemma round_even_of_int: "round_even (of_int m) = m"
  by (simp add: round_even_def)

lemma round_even_nonneg: "0 \<le> y \<Longrightarrow> 0 \<le> round_even y"
proof -
  assume "0 \<le> y"
  then have "0 \<le> \<lfloor>y\<rfloor>" by simp
  then show ?thesis by (simp add: round_even_def Let_def)
qed

lemma powi_le_abs:
  fixes x :: real
  assumes "x \<noteq> 0"
  shows "2 powi \<lfloor>log 2 \<bar>x\<bar>\<rfloor> \<le> \<bar>x\<bar>"
proof -
  have "2 powr of_int \<lfloor>log 2 \<bar>x\<bar>\<rfloor> \<le> 2 powr log 2 \<bar>x\<bar>"
    by (rule powr_mono) simp_all
  also have "\<dots> = \<bar>x\<bar>" using assms by simp
  finally show ?thesis by (simp add: powr_real_of_int')
qed

lemma fl_zero: "fl 0 = 0"
  by (simp add: fl_def)

text \<open>The relative error of one rounding is at most \<open>2^-53\<close>.\<close>

lemma fl_error: "\<bar>fl x - x\<bar> \<le> \<bar>x\<bar> / 2 ^ 53"
proof (cases "x = 0")
  case True
  then show ?thesis by (simp add: fl_def)
next
  case False
  define e where "e = \<lfloor>log 2 \<bar>x\<bar>\<rfloor>"
  define q :: real where "q = 2 powi (e - 52)"
  have q: "0 < q" by (simp add: q_def)
  have flx: "fl x = of_int (round_even (x / q)) * q"
    using False by (simp add: fl_def e_def q_def Let_def)
  have "fl x - x = (of_int (round_even (x / q)) - x / q) * q"
    using q unfolding flx by (simp add: left_diff_distrib)
  then have "\<bar>fl x - x\<bar> = \<bar>of_int (round_even (x / q)) - x / q\<bar> * q"
    using q by (simp add: abs_mult)
  also have "\<dots> \<le> (1 / 2) * q"
    using round_even_close [of "x / q"] q by (intro mult_right_mono) simp_all
  also have "(1 / 2) * q = 2 powi e / 2 ^ 53"
    by (simp add: q_def power_int_diff)
  also have "\<dots> \<le> \<bar>x\<bar> / 2 ^ 53"
    using powi_le_abs [OF False] by (simp add: e_def divide_right_mono)
  finally show ?thesis .
qed

lemma fl_nonneg: "0 \<le> x \<Longrightarrow> 0 \<le> fl x"
proof (cases "x = 0")
  case True
  then show ?thesis by (simp add: fl_def)
next
  case False
  assume x: "0 \<le> x"
  define q :: real where "q = 2 powi (\<lfloor>log 2 \<bar>x\<bar>\<rfloor> - 52)"
  have q: "0 < q" by (simp add: q_def)
  have flx: "fl x = of_int (round_even (x / q)) * q"
    using False by (simp add: fl_def q_def Let_def)
  have "0 \<le> x / q" using x q by simp
  then have "0 \<le> round_even (x / q)" by (rule round_even_nonneg)
  then show ?thesis unfolding flx using q by simp
qed

text \<open>The value of \<open>fl\<close> at a number whose binary exponent is known.\<close>

lemma fl_eval:
  assumes "2 powi e \<le> \<bar>x\<bar>" and "\<bar>x\<bar> < 2 powi (e + 1)"
  shows "fl x = of_int (round_even (x / 2 powi (e - 52))) * 2 powi (e - 52)"
proof -
  have pos: "0 < \<bar>x\<bar>" using assms(1) by (smt (verit) zero_less_power_int)
  then have nz: "x \<noteq> 0" by auto
  have p1: "(2::real) powr of_int e = 2 powi e" and p2: "(2::real) powr of_int (e + 1) = 2 powi (e + 1)"
    by (rule powr_real_of_int'; simp)+
  have "2 powr of_int e \<le> \<bar>x\<bar>" "\<bar>x\<bar> < 2 powr of_int (e + 1)"
    unfolding p1 p2 using assms by simp_all
  then have "of_int e \<le> log 2 \<bar>x\<bar>" "log 2 \<bar>x\<bar> < of_int (e + 1)"
    using pos by (simp_all only: le_log_iff log_less_iff one_less_numeral_iff semiring_norm)
  then have "\<lfloor>log 2 \<bar>x\<bar>\<rfloor> = e" by linarith
  then show ?thesis using nz by (simp add: fl_def Let_def)
qed

lemma fl_exact:
  assumes "2 powi e \<le> \<bar>x\<bar>" and "\<bar>x\<bar> < 2 powi (e + 1)" and "x / 2 powi (e - 52) = of_int m"
  shows "fl x = x"
proof -
  have "fl x = of_int m * 2 powi (e - 52)"
    unfolding fl_eval [OF assms(1,2)] assms(3) round_even_of_int ..
  also have "\<dots> = x" unfolding assms(3) [symmetric] by simp
  finally show ?thesis .
qed

subsection \<open>Lists\<close>

lemma map_idI: "(\<And>x. x \<in> set xs \<Longrightarrow> f x = x) \<Longrightarrow> map f xs = xs"
  by (induction xs) auto

lemma list_all2_mapI:
  "(\<And>x. x \<in> set xs \<Longrightarrow> P x (f x)) \<Longrightarrow> list_all2 P xs (map f xs)"
  by (induction xs) auto

lemma filter_idI: "(\<And>x. x \<in> set xs \<Longrightarrow> P x) \<Longrightarrow> filter P xs = xs"
  by (induction xs) auto

lemma map_rng_id: "(\<And>x h. x \<in> set xs \<Longrightarrow> f x h = (x, h)) \<Longrightarrow> map_rng f xs g = (xs, g)"
  by (induction xs arbitrary: g) auto

subsection \<open>Alerts\<close>

lemma ack_step_mono:
  "list_all2 (\<lambda>a a'. alert_acknowledged a \<longrightarrow> alert_acknowledged a') alerts (acknowledgeAlert i alerts)"
  by (simp add: acknowledgeAlert_def list_all2_map2 list_all2_same)

lemma ack_fold_mono:
  "list_all2 (\<lambda>a a'. alert_acknowledged a \<longrightarrow> alert_acknowledged a') alerts (fold acknowledgeAlert ids alerts)"
proof (induction ids arbitrary: alerts)
  case Nil
  show ?case by (simp add: list_all2_same)
next
  case (Cons i ids)
  have "list_all2 (\<lambda>a a'. alert_acknowledged a \<longrightarrow> alert_acknowledged a')
          alerts (fold acknowledgeAlert ids (acknowledgeAlert i alerts))"
    by (rule list_all2_trans [OF _ ack_step_mono Cons.IH]) simp
  then show ?case by simp
qed

subsection \<open>Threading the random sequence\<close>

lemma map_rng_length: "length (fst (map_rng f xs g)) = length xs"
  by (induction xs arbitrary: g) (auto simp: split_beta)

lemma map_rng_all2:
  "(\<And>x h. x \<in> set xs \<Longrightarrow> P x (fst (f x h))) \<Longrightarrow> list_all2 P xs (fst (map_rng f xs g))"
  by (induction xs arbitrary: g) (auto simp: split_beta)

lemma map_rng_map:
  "(\<And>x h. x \<in> set xs \<Longrightarrow> k (fst (f x h)) = j x) \<Longrightarrow> map k (fst (map_rng f xs g)) = map j xs"
  by (induction xs arbitrary: g) (auto simp: split_beta)

lemma map_rng_all2_valid:
  "(\<And>x h. x \<in> set xs \<Longrightarrow> valid_rng h \<Longrightarrow> P x (fst (f x h)) \<and> valid_rng (snd (f x h)))
   \<Longrightarrow> valid_rng g
   \<Longrightarrow> list_all2 P xs (fst (map_rng f xs g)) \<and> valid_rng (snd (map_rng f xs g))"
  by (induction xs arbitrary: g) (auto simp: split_beta)

lemma Math_random_valid:
  assumes "valid_rng g"
  shows "0 \<le> fst (Math_random g) \<and> fst (Math_random g) < 1 \<and> valid_rng (snd (Math_random g))"
proof -
  from assms have "0 \<le> g 0" "g 0 \<le> 1 - 1 / 2 ^ 53" and v: "valid_rng (\<lambda>n. g (Suc n))"
    by (simp_all add: valid_rng_def)
  then have "0 \<le> g 0" "g 0 < 1" by simp_all
  with v show ?thesis by (simp add: Math_random_def)
qed

lemma createSegment_fields:
  "seg_id (fst (createSegment now i e g)) = i"
  "seg_enabled (fst (createSegment now i e g)) = e"
  "(seg_status (fst (createSegment now i e g)) = Off) = (\<not> e)"
  by (simp_all add: createSegment_def split_beta Let_def)

lemma createTape_fields:
  "tape_id (fst (createTape now i start n g)) = i"
  "tape_enabled (fst (createTape now i start n g)) = True"
  "map seg_id (tape_segments (fst (createTape now i start n g))) = map (\<lambda>k. start + k) [0..<n]"
  "map seg_enabled (tape_segments (fst (createTape now i start n g)))
     = map (\<lambda>k. int k < \<lceil>fl (real n * fl (7 / 10))\<rceil>) [0..<n]"
  by (simp_all add: createTape_def split_beta Array_from_def map_rng_map createSegment_fields)

lemma Max_insert_max:
  "finite S \<Longrightarrow> Max (insert (max a b) S) = Max (insert a (insert b S))"
  by (cases "S = {}") (simp_all add: max.assoc)

lemma foldl_max_tape_id:
  "foldl (\<lambda>m t. max m (tape_id t)) a ts = Max (insert a (tape_id ` set ts))"
proof (induction ts arbitrary: a)
  case Nil
  show ?case by simp
next
  case (Cons t ts)
  show ?case by (simp add: Cons.IH Max_insert_max)
qed

lemma getMaxSegId_Max:
  "getMaxSegId ts = (if allSegments ts = [] then 0 else Max (seg_id ` set (allSegments ts)))"
proof (cases "map seg_id (allSegments ts)")
  case Nil
  have "getMaxSegId ts = 0"
    unfolding getMaxSegId_def Nil [unfolded allSegments_def] by simp
  with Nil show ?thesis by simp
next
  case (Cons x xs)
  then have ne: "allSegments ts \<noteq> []" by auto
  have "getMaxSegId ts = fold max xs x"
    unfolding getMaxSegId_def Cons [unfolded allSegments_def] by simp
  also have "\<dots> = Max (set (x # xs))" by (rule Max.set_eq_fold [symmetric])
  also have "\<dots> = Max (seg_id ` set (allSegments ts))"
    unfolding Cons [symmetric] by simp
  finally show ?thesis using ne by simp
qed


lemma upt_4: "[0..<4] = [0, 1, 2, 3]"
  by (simp add: upt_rec)

text \<open>
  The double for 0.7 lies below 0.7 and four times it is a double, 2.8 less \<open>2^-52\<close>: of
  four segments three are enabled.
\<close>

lemma fl_seven_tenths: "fl (7 / 10) = 3152519739159347 / 4503599627370496"
  by (subst fl_eval [where e = "-1"]) (simp_all add: round_even_def)

lemma ceiling_four_segments: "\<lceil>fl (real 4 * fl (7 / 10))\<rceil> = 3"
proof -
  have "fl (real 4 * fl (7 / 10)) = 3152519739159347 / 1125899906842624"
    unfolding fl_seven_tenths
    by (rule trans [OF fl_exact [where e = 1 and m = 6305039478318694]]) simp_all
  then have "\<lceil>fl (real 4 * fl (7 / 10))\<rceil> = \<lceil>3152519739159347 / 1125899906842624 :: real\<rceil>"
    by (rule arg_cong)
  also have "\<dots> = 3" by simp
  finally show ?thesis .
qed

lemma createTape_four:
  "map seg_id (tape_segments (fst (createTape now i start 4 g))) = [start, start + 1, start + 2, start + 3]"
  "map seg_enabled (tape_segments (fst (createTape now i start 4 g))) = [True, True, True, False]"
  by (simp_all add: createTape_fields upt_4 ceiling_four_segments del: of_nat_numeral)

subsection \<open>The simulation tick\<close>

text \<open>
  The error of the five roundings of a tick, on top of the drift of at most 0.75 and the
  0.05 of the rounding to a tenth.
\<close>

lemma tick_value_bound:
  fixes T r :: real
  assumes r: "0 \<le> r" "r \<le> 1"
  defines "drift \<equiv> fl (fl (r - 1 / 2) * (3 / 2))"
  defines "k \<equiv> \<lfloor>fl (fl (T + drift) * 10) + 1 / 2\<rfloor>"
  shows "\<bar>fl (of_int k / 10) - T\<bar> \<le> 8 / 10 + (4 * \<bar>T\<bar> + 7) / 2 ^ 53"
proof -
  define u :: real where "u = 1 / 2 ^ 53"
  define d1 where "d1 = fl (r - 1 / 2)"
  define s1 where "s1 = fl (T + drift)"
  define m where "m = fl (s1 * 10)"
  define P where "P = \<bar>T\<bar> + 1"
  define X where "X = P * u"
  have u: "0 < u" "u \<le> 1 / 1000" by (simp_all add: u_def)
  have P: "1 \<le> P" by (simp add: P_def)
  have X: "0 \<le> X" "X \<le> P / 1000"
    using u P mult_left_mono [of u "1 / 1000" P] by (simp_all add: X_def)
  have err: "\<bar>fl y - y\<bar> \<le> \<bar>y\<bar> * u" for y
    using fl_error [of y] by (simp add: u_def)
  \<comment> \<open>the drift\<close>
  have "\<bar>r - 1 / 2\<bar> \<le> 1 / 2" using r by linarith
  then have "\<bar>r - 1 / 2\<bar> * u \<le> (1 / 2) * u" using u by (intro mult_right_mono) simp_all
  with err [of "r - 1 / 2"] \<open>\<bar>r - 1 / 2\<bar> \<le> 1 / 2\<close> have d1: "\<bar>d1\<bar> \<le> 1 / 2 + u / 2"
    unfolding d1_def by linarith
  have "\<bar>d1 * (3 / 2)\<bar> = (3 / 2) * \<bar>d1\<bar>" by (simp add: abs_mult)
  with d1 u have d15: "\<bar>d1 * (3 / 2)\<bar> \<le> 3 / 4 + u" by linarith
  then have "\<bar>d1 * (3 / 2)\<bar> * u \<le> (3 / 4 + u) * u" using u by (intro mult_right_mono) simp_all
  also have "(3 / 4 + u) * u \<le> (3 / 4 + 1 / 1000) * u" using u by (intro mult_right_mono) simp_all
  finally have "\<bar>d1 * (3 / 2)\<bar> * u \<le> (3 / 4 + 1 / 1000) * u" .
  also have "(3 / 4 + 1 / 1000) * u \<le> u" using u by simp
  finally have "\<bar>d1 * (3 / 2)\<bar> * u \<le> u" .
  with err [of "d1 * (3 / 2)"] d15 have drift: "\<bar>drift\<bar> \<le> 3 / 4 + 2 * u"
    unfolding drift_def d1_def by linarith
  \<comment> \<open>the sum\<close>
  have a: "\<bar>T + drift\<bar> \<le> P" using drift u unfolding P_def by linarith
  then have "\<bar>T + drift\<bar> * u \<le> X" unfolding X_def using u by (intro mult_right_mono) simp_all
  with err [of "T + drift"] have s1e: "\<bar>s1 - (T + drift)\<bar> \<le> X" unfolding s1_def by linarith
  with a X have s1: "\<bar>s1\<bar> \<le> (1001 / 1000) * P" by linarith
  \<comment> \<open>the product with ten\<close>
  have "\<bar>s1 * 10\<bar> = 10 * \<bar>s1\<bar>" by (simp add: abs_mult)
  with s1 have s10: "\<bar>s1 * 10\<bar> \<le> (1001 / 100) * P" by linarith
  then have "\<bar>s1 * 10\<bar> * u \<le> (1001 / 100) * P * u" using u by (intro mult_right_mono) simp_all
  then have "\<bar>s1 * 10\<bar> * u \<le> (1001 / 100) * X" by (simp add: X_def)
  with err [of "s1 * 10"] have me: "\<bar>m - s1 * 10\<bar> \<le> (1001 / 100) * X" unfolding m_def by linarith
  with s10 X have mabs: "\<bar>m\<bar> \<le> (1003 / 100) * P" by linarith
  \<comment> \<open>rounding to an integer and dividing by ten\<close>
  have kdef: "k = \<lfloor>m + 1 / 2\<rfloor>" by (simp add: k_def m_def s1_def)
  have km: "\<bar>of_int k - m\<bar> \<le> 1 / 2" unfolding kdef by linarith
  have "\<bar>real_of_int k / 10\<bar> = \<bar>real_of_int k\<bar> / 10" by simp
  with km mabs have k10: "\<bar>real_of_int k / 10\<bar> \<le> (1003 / 1000) * P + 1 / 20" by linarith
  then have "\<bar>real_of_int k / 10\<bar> * u \<le> ((1003 / 1000) * P + 1 / 20) * u"
    using u by (intro mult_right_mono) simp_all
  then have "\<bar>real_of_int k / 10\<bar> * u \<le> (1003 / 1000) * X + u / 20"
    by (simp add: X_def algebra_simps)
  with err [of "of_int k / 10"]
  have te: "\<bar>fl (of_int k / 10) - of_int k / 10\<bar> \<le> (1003 / 1000) * X + u / 20" by linarith
  \<comment> \<open>together\<close>
  have total: "\<bar>fl (of_int k / 10) - T\<bar> \<le> 8 / 10 + (4 * X + 3 * u)"
    using te km me s1e drift X u by linarith
  have "4 * X + 3 * u = (4 * \<bar>T\<bar> + 7) / 2 ^ 53"
    by (simp add: X_def P_def u_def algebra_simps)
  with total show ?thesis by simp
qed

lemma tick_segment_spec:
  assumes "valid_rng h"
  shows "(if seg_enabled s \<and> tape_enabled t
          then fst (tick_segment t s h) = s\<lparr> seg_temperature := seg_temperature (fst (tick_segment t s h)) \<rparr>
             \<and> one_decimal (seg_temperature (fst (tick_segment t s h)))
             \<and> \<bar>seg_temperature (fst (tick_segment t s h)) - seg_temperature s\<bar>
                 \<le> 8 / 10 + (4 * \<bar>seg_temperature s\<bar> + 7) / 2 ^ 53
          else fst (tick_segment t s h) = s)
         \<and> valid_rng (snd (tick_segment t s h))"
proof (cases "seg_enabled s \<and> tape_enabled t")
  case False
  then show ?thesis using assms by (auto simp: tick_segment_def)
next
  case True
  from assms have "0 \<le> h 0" "h 0 \<le> 1 - 1 / 2 ^ 53" and v: "valid_rng (\<lambda>n. h (Suc n))"
    by (simp_all add: valid_rng_def)
  then have r: "0 \<le> h 0" "h 0 \<le> 1" by simp_all
  define k where
    "k = \<lfloor>fl (fl (seg_temperature s + fl (fl (h 0 - 1 / 2) * (3 / 2))) * 10) + 1 / 2\<rfloor>"
  have eq: "tick_segment t s h = (s\<lparr> seg_temperature := fl (of_int k / 10) \<rparr>, \<lambda>n. h (Suc n))"
    using True by (simp add: tick_segment_def Math_random_def k_def)
  have "one_decimal (fl (of_int k / 10))" unfolding one_decimal_def by (rule exI) (rule refl)
  moreover have "\<bar>fl (of_int k / 10) - seg_temperature s\<bar>
                  \<le> 8 / 10 + (4 * \<bar>seg_temperature s\<bar> + 7) / 2 ^ 53"
    unfolding k_def by (rule tick_value_bound [OF r])
  ultimately show ?thesis unfolding eq using True v by simp
qed

subsection \<open>Lists of identifiers\<close>

lemma unique_ids_shape: "unique_ids ts = sh_unique (shape ts)"
  by (simp add: unique_ids_def sh_unique_def shape_def allSegments_def comp_def map_concat)

lemma nonempty_tapes_shape: "nonempty_tapes ts = sh_nonempty (shape ts)"
  by (auto simp: nonempty_tapes_def sh_nonempty_def shape_def list_all_iff)

lemma filter_eq_le_one:
  "distinct (map f xs) \<Longrightarrow> length (filter (\<lambda>x. f x = a) xs) \<le> 1"
proof (induction xs)
  case Nil
  show ?case by simp
next
  case (Cons x xs)
  show ?case
  proof (cases "f x = a")
    case True
    from Cons.prems have "f x \<notin> f ` set xs" by simp
    with True have "\<And>y. y \<in> set xs \<Longrightarrow> f y \<noteq> a" by blast
    then have "filter (\<lambda>x. f x = a) xs = []" by (simp add: filter_empty_conv)
    with True show ?thesis by simp
  next
    case False
    with Cons show ?thesis by simp
  qed
qed

lemma filter_neq_length:
  assumes "distinct (map f xs)"
  shows "length xs - 1 \<le> length (filter (\<lambda>x. f x \<noteq> a) xs)"
    and "a \<in> f ` set xs \<Longrightarrow> length (filter (\<lambda>x. f x \<noteq> a) xs) = length xs - 1"
proof -
  have sum: "length (filter (\<lambda>x. f x = a) xs) + length (filter (\<lambda>x. f x \<noteq> a) xs) = length xs"
    using sum_length_filter_compl [of "\<lambda>x. f x = a" xs] by (simp add: comp_def)
  from filter_eq_le_one [OF assms, of a] sum
  show "length xs - 1 \<le> length (filter (\<lambda>x. f x \<noteq> a) xs)" by linarith
  assume "a \<in> f ` set xs"
  then have "filter (\<lambda>x. f x = a) xs \<noteq> []" by (auto simp: filter_empty_conv)
  then have "1 \<le> length (filter (\<lambda>x. f x = a) xs)" by (simp add: Suc_leI)
  with filter_eq_le_one [OF assms, of a] sum
  show "length (filter (\<lambda>x. f x \<noteq> a) xs) = length xs - 1" by linarith
qed

lemma sh_unique_filter: "sh_unique sh \<Longrightarrow> sh_unique (filter P sh)"
  unfolding sh_unique_def
  by (induction sh) (auto simp: distinct_map_filter)

lemma sh_unique_append:
  "sh_unique sh \<Longrightarrow> a \<notin> fst ` set sh \<Longrightarrow> distinct ids
   \<Longrightarrow> set ids \<inter> set (concat (map snd sh)) = {} \<Longrightarrow> sh_unique (sh @ [(a, ids)])"
  unfolding sh_unique_def by auto

lemma sh_unique_shrink:
  assumes "sh_unique sh" and "\<And>a ids. distinct ids \<Longrightarrow> distinct (h a ids) \<and> set (h a ids) \<subseteq> set ids"
  shows "sh_unique (map (\<lambda>(a, ids). (a, h a ids)) sh)
         \<and> set (concat (map snd (map (\<lambda>(a, ids). (a, h a ids)) sh))) \<subseteq> set (concat (map snd sh))"
  using assms(1)
proof (induction sh)
  case Nil
  show ?case by (simp add: sh_unique_def)
next
  case (Cons p sh)
  obtain a ids where p: "p = (a, ids)" by (cases p)
  from Cons.prems have u: "sh_unique sh" and d: "distinct ids"
    and dj: "set ids \<inter> set (concat (map snd sh)) = {}" and na: "a \<notin> fst ` set sh"
    by (auto simp: sh_unique_def p)
  from Cons.IH [OF u] have ih: "sh_unique (map (\<lambda>(a, ids). (a, h a ids)) sh)"
    and sub: "set (concat (map snd (map (\<lambda>(a, ids). (a, h a ids)) sh))) \<subseteq> set (concat (map snd sh))"
    by simp_all
  from assms(2) [OF d] have hd: "distinct (h a ids)" and hs: "set (h a ids) \<subseteq> set ids" by simp_all
  have fsts: "map fst (map (\<lambda>(a, ids). (a, h a ids)) sh) = map fst sh"
    by (simp add: comp_def split_beta)
  have a_new: "a \<notin> set (map fst (map (\<lambda>(a, ids). (a, h a ids)) sh))"
    unfolding fsts using na by simp
  have disj: "set (h a ids) \<inter> set (concat (map snd (map (\<lambda>(a, ids). (a, h a ids)) sh))) = {}"
    using hs sub dj by blast
  from ih have d1: "distinct (map fst (map (\<lambda>(a, ids). (a, h a ids)) sh))"
    and d2: "distinct (concat (map snd (map (\<lambda>(a, ids). (a, h a ids)) sh)))"
    by (simp_all add: sh_unique_def)
  have "sh_unique ((a, h a ids) # map (\<lambda>(a, ids). (a, h a ids)) sh)"
    unfolding sh_unique_def using a_new disj d1 d2 hd by simp
  moreover have "set (concat (map snd ((a, h a ids) # map (\<lambda>(a, ids). (a, h a ids)) sh)))
        \<subseteq> set (concat (map snd ((a, ids) # sh)))"
    using hs sub by auto
  ultimately show ?case by (simp add: p)
qed

lemma sh_unique_add_segment:
  assumes "sh_unique sh" and "\<And>x. x \<in> set (concat (map snd sh)) \<Longrightarrow> x \<le> m"
  shows "sh_unique (map (\<lambda>(a, ids). (a, if a = i then ids @ [m + 1] else ids)) sh)"
  using assms
proof (induction sh)
  case Nil
  show ?case by (simp add: sh_unique_def)
next
  case (Cons p sh)
  obtain a ids where p: "p = (a, ids)" by (cases p)
  let ?g = "\<lambda>(a, ids). (a, if a = i then ids @ [m + 1] else ids)"
  from Cons.prems(1) have u: "sh_unique sh" and d: "distinct ids"
    and dj: "set ids \<inter> set (concat (map snd sh)) = {}" and na: "a \<notin> fst ` set sh"
    and df: "distinct (map fst sh)"
    by (auto simp: sh_unique_def p)
  have le: "\<And>x. x \<in> set ids \<or> x \<in> set (concat (map snd sh)) \<Longrightarrow> x \<le> m"
    using Cons.prems(2) by (auto simp: p)
  have ih: "sh_unique (map ?g sh)" using Cons.IH [OF u] le by blast
  have fsts: "map fst (map ?g sh) = map fst sh" by (simp add: comp_def split_beta)
  have sub: "set (concat (map snd (map ?g sh))) \<subseteq> insert (m + 1) (set (concat (map snd sh)))"
    by (auto split: if_splits)
  have new: "m + 1 \<notin> set ids" "m + 1 \<notin> set (concat (map snd sh))" using le by fastforce+
  show ?case
  proof (cases "a = i")
    case True
    with na have "\<And>q. q \<in> set sh \<Longrightarrow> ?g q = q" by (auto simp: split_beta)
    then have same: "map ?g sh = sh" by (rule map_idI)
    show ?thesis using True u d dj na new unfolding p sh_unique_def by (simp add: same)
  next
    case False
    have disj: "set ids \<inter> set (concat (map snd (map ?g sh))) = {}" using sub dj new by blast
    have a_new: "a \<notin> set (map fst (map ?g sh))" unfolding fsts using na by simp
    from ih have d1: "distinct (map fst (map ?g sh))" and d2: "distinct (concat (map snd (map ?g sh)))"
      by (simp_all add: sh_unique_def)
    have "sh_unique ((a, ids) # map ?g sh)"
      unfolding sh_unique_def using a_new disj d1 d2 d by simp
    with False show ?thesis by (simp add: p)
  qed
qed

subsection \<open>What each command does to the identifiers\<close>

lemma set_field_keeps:
  "tape_id (set_field f v t) = tape_id t"
  "tape_segments (set_field f v t) = tape_segments t"
  "tape_enabled (set_field f v t) = tape_enabled t"
  by (cases f; simp)+

lemma shape_map:
  "(\<And>t. t \<in> set ts \<Longrightarrow> tape_id (f t) = tape_id t
        \<and> map seg_id (tape_segments (f t)) = map seg_id (tape_segments t))
   \<Longrightarrow> shape (map f ts) = shape ts"
  by (simp add: shape_def)

lemma map_seg_id_if:
  "map seg_id (map (\<lambda>s. if c s then s\<lparr> seg_power := p \<rparr> else s) segs) = map seg_id segs"
  "map seg_id (map (\<lambda>s. if c s then s\<lparr> seg_targetTemp := q \<rparr> else s) segs) = map seg_id segs"
  "map seg_id (map (\<lambda>s. if c s then s\<lparr> seg_enabled := e s, seg_status := st s \<rparr> else s) segs)
     = map seg_id segs"
  "map seg_id (map (\<lambda>s. s\<lparr> seg_enabled := b, seg_status := st' \<rparr>) segs) = map seg_id segs"
  by (induction segs) simp_all

lemma shape_toggleTape: "shape (toggleTape i ts) = shape ts"
  unfolding toggleTape_def by (rule shape_map) simp

lemma shape_updateTapeField: "shape (updateTapeField i f v ts) = shape ts"
  unfolding updateTapeField_def by (rule shape_map) (simp add: set_field_keeps)

lemma shape_toggleSegment: "shape (toggleSegment i j ts) = shape ts"
  unfolding toggleSegment_def by (rule shape_map) (simp add: map_seg_id_if)

lemma shape_setSegPower: "shape (setSegPower i j p ts) = shape ts"
  unfolding setSegPower_def by (rule shape_map) (simp add: map_seg_id_if)

lemma shape_setSegTargetTemp: "shape (setSegTargetTemp i j p ts) = shape ts"
  unfolding setSegTargetTemp_def by (rule shape_map) (simp add: map_seg_id_if)

lemma shape_enableAllSegments: "shape (enableAllSegments i ts) = shape ts"
  unfolding enableAllSegments_def by (rule shape_map) (simp add: map_seg_id_if)

lemma shape_disableAllSegments: "shape (disableAllSegments i ts) = shape ts"
  unfolding disableAllSegments_def by (rule shape_map) (simp add: map_seg_id_if)

lemma tick_segment_id: "seg_id (fst (tick_segment t s h)) = seg_id s"
  by (simp add: tick_segment_def split_beta)

lemma tick_tape_ids:
  "tape_id (fst (tick_tape t h)) = tape_id t"
  "map seg_id (tape_segments (fst (tick_tape t h))) = map seg_id (tape_segments t)"
  by (simp_all add: tick_tape_def split_beta map_rng_map tick_segment_id)

lemma shape_tick: "shape (fst (tick ts g)) = shape ts"
  unfolding shape_def tick_def by (rule map_rng_map) (simp add: tick_tape_ids)

lemma shape_removeTape:
  "shape (removeTape i ts)
     = (if 1 < length (shape ts) then filter (\<lambda>p. fst p \<noteq> i) (shape ts) else shape ts)"
  by (simp add: removeTape_def shape_def filter_map comp_def)

lemma shape_removeSegmentFromTape:
  "shape (removeSegmentFromTape i j ts)
     = map (\<lambda>(a, ids). (a, if a = i \<and> 1 < length ids then filter (\<lambda>x. x \<noteq> j) ids else ids)) (shape ts)"
  by (simp add: removeSegmentFromTape_def shape_def filter_map comp_def)

lemma shape_addSegmentToTape:
  "shape (fst (addSegmentToTape now i ts g))
     = map (\<lambda>(a, ids). (a, if a = i then ids @ [getMaxSegId ts + 1] else ids)) (shape ts)"
proof -
  have "map (\<lambda>t. (tape_id t, map seg_id (tape_segments t))) (fst (addSegmentToTape now i ts g))
      = map (\<lambda>t. (tape_id t, if tape_id t = i then map seg_id (tape_segments t) @ [getMaxSegId ts + 1]
                               else map seg_id (tape_segments t))) ts"
    unfolding addSegmentToTape_def Let_def
    by (rule map_rng_map) (simp add: split_beta createSegment_fields)
  then show ?thesis by (simp add: shape_def comp_def)
qed

lemma shape_addTape:
  "shape (fst (addTape now ts g))
     = shape ts @ [(foldl (\<lambda>m t. max m (tape_id t)) 0 ts + 1,
                    [getMaxSegId ts + 1, getMaxSegId ts + 2, getMaxSegId ts + 3, getMaxSegId ts + 4])]"
  by (simp add: addTape_def shape_def split_beta Let_def createTape_fields(1) createTape_four)

lemma upt_6: "[0..<6] = [0, 1, 2, 3, 4, 5]"
  by (simp add: upt_rec)

lemma shape_createInitialTapes:
  "shape (fst (createInitialTapes now g)) = [(1, [1, 2, 3, 4, 5, 6]), (2, [7, 8, 9, 10, 11, 12])]"
  by (simp add: createInitialTapes_def shape_def split_beta createTape_fields upt_6)

lemma seg_id_le_getMaxSegId:
  "x \<in> set (concat (map snd (shape ts))) \<Longrightarrow> x \<le> getMaxSegId ts"
proof -
  assume "x \<in> set (concat (map snd (shape ts)))"
  then have x: "x \<in> seg_id ` set (allSegments ts)"
    by (auto simp: shape_def allSegments_def)
  then have "allSegments ts \<noteq> []" by auto
  with x show ?thesis by (simp add: getMaxSegId_Max)
qed

lemma tape_id_le_max:
  "a \<in> fst ` set (shape ts) \<Longrightarrow> a \<le> foldl (\<lambda>m t. max m (tape_id t)) 0 ts"
proof -
  assume "a \<in> fst ` set (shape ts)"
  then have "a \<in> tape_id ` set ts" by (auto simp: shape_def)
  then show ?thesis unfolding foldl_max_tape_id by simp
qed

subsection \<open>Identifiers along a run\<close>

lemma length_shape: "length (shape ts) = length ts"
  by (simp add: shape_def)

lemma shape_ids:
  "map tape_id ts = map fst (shape ts)"
  "map seg_id (allSegments ts) = concat (map snd (shape ts))"
  by (simp_all add: shape_def allSegments_def comp_def map_concat)

lemma getMaxSegId_shape:
  "getMaxSegId ts = (case concat (map snd (shape ts)) of [] \<Rightarrow> 0 | x # xs \<Rightarrow> fold max xs x)"
  by (simp add: getMaxSegId_def shape_ids(2) [symmetric] allSegments_def)

lemma max_tape_id_shape:
  "foldl (\<lambda>m t. max m (tape_id t)) 0 ts = foldl max 0 (map fst (shape ts))"
  by (simp add: shape_def foldl_map comp_def)

lemma sh_unique_addTape:
  assumes "sh_unique (shape ts)"
  shows "sh_unique (shape (fst (addTape now ts g)))"
proof -
  let ?m = "getMaxSegId ts"
  have "foldl (\<lambda>m t. max m (tape_id t)) 0 ts + 1 \<notin> fst ` set (shape ts)"
    using tape_id_le_max [of "foldl (\<lambda>m t. max m (tape_id t)) 0 ts + 1" ts] by auto
  moreover have "distinct [?m + 1, ?m + 2, ?m + 3, ?m + 4]" by simp
  moreover have "set [?m + 1, ?m + 2, ?m + 3, ?m + 4] \<inter> set (concat (map snd (shape ts))) = {}"
  proof -
    have "\<And>x. x \<in> set (concat (map snd (shape ts))) \<Longrightarrow> x \<notin> set [?m + 1, ?m + 2, ?m + 3, ?m + 4]"
      using seg_id_le_getMaxSegId [of _ ts] by fastforce
    then show ?thesis by blast
  qed
  ultimately show ?thesis
    unfolding shape_addTape using assms by (rule sh_unique_append [rotated])
qed

lemma sh_unique_addSegmentToTape:
  assumes "sh_unique (shape ts)"
  shows "sh_unique (shape (fst (addSegmentToTape now i ts g)))"
  unfolding shape_addSegmentToTape
  using assms seg_id_le_getMaxSegId by (rule sh_unique_add_segment)

lemma sh_unique_removeTape:
  "sh_unique (shape ts) \<Longrightarrow> sh_unique (shape (removeTape i ts))"
  by (simp add: shape_removeTape sh_unique_filter)

lemma sh_unique_removeSegmentFromTape:
  assumes "sh_unique (shape ts)"
  shows "sh_unique (shape (removeSegmentFromTape i j ts))"
proof -
  have "sh_unique (map (\<lambda>(a, ids). (a, if a = i \<and> 1 < length ids then filter (\<lambda>x. x \<noteq> j) ids else ids))
                    (shape ts))
        \<and> set (concat (map snd (map (\<lambda>(a, ids). (a, if a = i \<and> 1 < length ids
                                                       then filter (\<lambda>x. x \<noteq> j) ids else ids)) (shape ts))))
            \<subseteq> set (concat (map snd (shape ts)))"
    using assms by (rule sh_unique_shrink) auto
  then show ?thesis by (simp add: shape_removeSegmentFromTape)
qed

lemma sh_unique_parts:
  "sh_unique sh \<Longrightarrow> p \<in> set sh \<Longrightarrow> distinct (snd p)"
  unfolding sh_unique_def by (induction sh) auto

lemma sh_nonempty_removeTape:
  assumes "sh_unique (shape ts)" "sh_nonempty (shape ts)"
  shows "sh_nonempty (shape (removeTape i ts))"
proof (cases "1 < length (shape ts)")
  case False
  with assms show ?thesis by (simp add: shape_removeTape)
next
  case True
  from assms(1) have "distinct (map fst (shape ts))" by (simp add: sh_unique_def)
  from filter_neq_length(1) [OF this, of i] True
  have "1 \<le> length (filter (\<lambda>p. fst p \<noteq> i) (shape ts))" by linarith
  then have "filter (\<lambda>p. fst p \<noteq> i) (shape ts) \<noteq> []" by auto
  with assms(2) True show ?thesis by (simp add: shape_removeTape sh_nonempty_def)
qed


lemma sh_nonempty_removeSegmentFromTape:
  assumes "sh_unique (shape ts)" "sh_nonempty (shape ts)"
  shows "sh_nonempty (shape (removeSegmentFromTape i j ts))"
proof -
  have "(if a = i \<and> 1 < length ids then filter (\<lambda>x. x \<noteq> j) ids else ids) \<noteq> []"
    if "(a, ids) \<in> set (shape ts)" for a ids
  proof (cases "a = i \<and> 1 < length ids")
    case False
    with assms(2) that show ?thesis by (auto simp: sh_nonempty_def)
  next
    case True
    from sh_unique_parts [OF assms(1) that] have "distinct (map (\<lambda>x. x) ids)" by simp
    from filter_neq_length(1) [OF this, of j] True
    have "1 \<le> length (filter (\<lambda>x. x \<noteq> j) ids)" by linarith
    then have "filter (\<lambda>x. x \<noteq> j) ids \<noteq> []" by auto
    with True show ?thesis by simp
  qed
  with assms(2) show ?thesis
    unfolding shape_removeSegmentFromTape sh_nonempty_def by auto
qed

lemma sh_nonempty_addTape:
  "sh_nonempty (shape (fst (addTape now ts g)))" if "sh_nonempty (shape ts)"
  using that unfolding shape_addTape sh_nonempty_def by auto

lemma sh_nonempty_addSegmentToTape:
  "sh_nonempty (shape (fst (addSegmentToTape now i ts g)))" if "sh_nonempty (shape ts)"
  using that unfolding shape_addSegmentToTape sh_nonempty_def by (fastforce split: if_splits)

lemma exec_keeps_ids:
  assumes "sh_unique (shape ts)" "sh_nonempty (shape ts)"
  shows "sh_unique (shape (fst (exec now c (ts, g)))) \<and> sh_nonempty (shape (fst (exec now c (ts, g))))"
proof (cases c)
  case Tick
  with assms show ?thesis by (simp add: shape_tick)
next
  case (ToggleTape i)
  with assms show ?thesis by (simp add: shape_toggleTape)
next
  case (UpdateTapeField i f v)
  with assms show ?thesis by (simp add: shape_updateTapeField)
next
  case AddTape
  with assms show ?thesis by (simp add: sh_unique_addTape sh_nonempty_addTape)
next
  case (RemoveTape i)
  with assms show ?thesis by (simp add: sh_unique_removeTape sh_nonempty_removeTape)
next
  case (AddSegmentToTape i)
  with assms show ?thesis by (simp add: sh_unique_addSegmentToTape sh_nonempty_addSegmentToTape)
next
  case (RemoveSegmentFromTape i j)
  with assms show ?thesis
    by (simp add: sh_unique_removeSegmentFromTape sh_nonempty_removeSegmentFromTape)
next
  case (ToggleSegment i j)
  with assms show ?thesis by (simp add: shape_toggleSegment)
next
  case (SetSegPower i j p)
  with assms show ?thesis by (simp add: shape_setSegPower)
next
  case (SetSegTargetTemp i j p)
  with assms show ?thesis by (simp add: shape_setSegTargetTemp)
next
  case (EnableAllSegments i)
  with assms show ?thesis by (simp add: shape_enableAllSegments)
next
  case (DisableAllSegments i)
  with assms show ?thesis by (simp add: shape_disableAllSegments)
qed

lemma reachable_ids:
  "reachable st \<Longrightarrow> sh_unique (shape (fst st)) \<and> sh_nonempty (shape (fst st))"
proof (induction rule: reachable.induct)
  case (init g now)
  show ?case by (simp add: shape_createInitialTapes sh_unique_def sh_nonempty_def)
next
  case (step st now c)
  then show ?case using exec_keeps_ids [of "fst st" now c "snd st"] by simp
qed

lemma exec_add_unique:
  "is_add c \<Longrightarrow> sh_unique (shape ts) \<Longrightarrow> sh_unique (shape (fst (exec now c (ts, g))))"
  by (cases c) (simp_all add: sh_unique_addTape sh_unique_addSegmentToTape)

lemma run_adds_unique:
  "\<forall>e \<in> set evs. is_add (snd e) \<Longrightarrow> sh_unique (shape (fst st)) \<Longrightarrow> sh_unique (shape (fst (run evs st)))"
proof (induction evs arbitrary: st)
  case Nil
  then show ?case by simp
next
  case (Cons e evs)
  obtain now c where e: "e = (now, c)" by (cases e)
  from Cons.prems have "is_add c" by (simp add: e)
  from exec_add_unique [OF this, of "fst st" now "snd st"] Cons.prems(2)
  have "sh_unique (shape (fst (exec now c st)))" by simp
  with Cons.IH [of "exec now c st"] Cons.prems(1) show ?case by (simp add: e)
qed

lemma exec_add_fresh:
  assumes "is_add c"
  shows "\<forall>i \<in> set (map fst (shape (fst (exec now c (ts, g))))) - set (map fst (shape ts)).
           \<forall>j \<in> set (map fst (shape ts)). j < i"
    and "\<forall>i \<in> set (concat (map snd (shape (fst (exec now c (ts, g)))))) - set (concat (map snd (shape ts))).
           \<forall>j \<in> set (concat (map snd (shape ts))). j < i"
proof -
  have le: "\<And>j. j \<in> set (concat (map snd (shape ts))) \<Longrightarrow> j < getMaxSegId ts + 1"
    using seg_id_le_getMaxSegId [of _ ts] by (simp add: less_Suc_eq_le)
  have le': "\<And>j. j \<in> set (map fst (shape ts)) \<Longrightarrow> j < foldl (\<lambda>m t. max m (tape_id t)) 0 ts + 1"
    using tape_id_le_max [of _ ts] by (simp add: less_Suc_eq_le)
  show "\<forall>i \<in> set (map fst (shape (fst (exec now c (ts, g))))) - set (map fst (shape ts)).
           \<forall>j \<in> set (map fst (shape ts)). j < i"
  proof (cases c)
    case AddTape
    then show ?thesis using le' by (auto simp: shape_addTape)
  next
    case (AddSegmentToTape i)
    then show ?thesis by (auto simp: shape_addSegmentToTape split_beta)
  qed (use assms in simp_all)
  show "\<forall>i \<in> set (concat (map snd (shape (fst (exec now c (ts, g)))))) - set (concat (map snd (shape ts))).
           \<forall>j \<in> set (concat (map snd (shape ts))). j < i"
  proof (cases c)
    case AddTape
    have "\<And>j. j \<in> set (concat (map snd (shape ts))) \<Longrightarrow>
            j < getMaxSegId ts + 1 \<and> j < getMaxSegId ts + 2 \<and> j < getMaxSegId ts + 3 \<and> j < getMaxSegId ts + 4"
      using le by fastforce
    with AddTape show ?thesis by (auto simp: shape_addTape)
  next
    case (AddSegmentToTape i)
    have "set (concat (map snd (map (\<lambda>(a, ids). (a, if a = i then ids @ [getMaxSegId ts + 1] else ids))
                                 (shape ts))))
            \<subseteq> insert (getMaxSegId ts + 1) (set (concat (map snd (shape ts))))"
      by (auto split: if_splits)
    then have "set (concat (map snd (shape (fst (exec now c (ts, g)))))) - set (concat (map snd (shape ts)))
            \<subseteq> {getMaxSegId ts + 1}"
      unfolding AddSegmentToTape exec.simps shape_addSegmentToTape by blast
    with le show ?thesis by blast
  qed (use assms in simp_all)
qed

subsection \<open>The status invariant\<close>

lemma list_all_map_rng:
  "(\<And>x h. x \<in> set xs \<Longrightarrow> Q x \<Longrightarrow> Q' (fst (f x h))) \<Longrightarrow> list_all Q xs
   \<Longrightarrow> list_all Q' (fst (map_rng f xs g))"
  by (induction xs arbitrary: g) (auto simp: split_beta)

lemma all_status_ok_map:
  "(\<And>t. t \<in> set ts \<Longrightarrow> list_all status_ok (tape_segments t)
         \<Longrightarrow> list_all status_ok (tape_segments (f t)))
   \<Longrightarrow> all_status_ok ts \<Longrightarrow> all_status_ok (map f ts)"
  by (auto simp: all_status_ok_def list_all_iff)

lemma status_ok_createSegment: "status_ok (fst (createSegment now i e g))"
  by (simp add: status_ok_def createSegment_fields)

lemma status_ok_updates:
  "status_ok (s\<lparr> seg_enabled := \<not> seg_enabled s, seg_status := (if \<not> seg_enabled s then Normal else Off) \<rparr>)"
  "status_ok (s\<lparr> seg_enabled := True, seg_status := Normal \<rparr>)"
  "status_ok (s\<lparr> seg_enabled := False, seg_status := Off \<rparr>)"
  "status_ok (s\<lparr> seg_power := p \<rparr>) = status_ok s"
  "status_ok (s\<lparr> seg_targetTemp := q \<rparr>) = status_ok s"
  "status_ok (s\<lparr> seg_temperature := x \<rparr>) = status_ok s"
  by (simp_all add: status_ok_def)

lemma status_ok_tick_segment: "status_ok s \<Longrightarrow> status_ok (fst (tick_segment t s h))"
  by (simp add: tick_segment_def split_beta status_ok_updates)

lemma status_ok_createTape:
  "list_all status_ok (tape_segments (fst (createTape now i start n g)))"
proof -
  have "list_all status_ok
          (fst (map_rng (\<lambda>k. createSegment now (start + k) (int k < \<lceil>fl (real n * fl (7 / 10))\<rceil>))
                  [0..<n] g))"
    by (rule list_all_map_rng [where Q = "\<lambda>_. True"]) (simp_all add: status_ok_createSegment list_all_iff)
  then show ?thesis by (simp add: createTape_def Array_from_def split_beta)
qed

lemma all_status_ok_createInitialTapes: "all_status_ok (fst (createInitialTapes now g))"
  by (simp add: createInitialTapes_def all_status_ok_def split_beta status_ok_createTape)

lemma all_status_ok_tick: "all_status_ok ts \<Longrightarrow> all_status_ok (fst (tick ts g))"
  unfolding all_status_ok_def tick_def
proof (rule list_all_map_rng)
  fix t :: Tape and h :: rng assume "list_all status_ok (tape_segments t)"
  then have "list_all status_ok (fst (map_rng (tick_segment t) (tape_segments t) h))"
    by (rule list_all_map_rng [rotated]) (rule status_ok_tick_segment)
  then show "list_all status_ok (tape_segments (fst (tick_tape t h)))"
    by (simp add: tick_tape_def split_beta)
qed

lemma all_status_ok_addTape: "all_status_ok ts \<Longrightarrow> all_status_ok (fst (addTape now ts g))"
  by (simp add: addTape_def all_status_ok_def split_beta Let_def status_ok_createTape)

lemma all_status_ok_addSegmentToTape:
  "all_status_ok ts \<Longrightarrow> all_status_ok (fst (addSegmentToTape now i ts g))"
  unfolding all_status_ok_def addSegmentToTape_def Let_def
  by (rule list_all_map_rng) (auto simp: split_beta status_ok_createSegment)

lemma all_status_ok_exec:
  assumes "all_status_ok ts"
  shows "all_status_ok (fst (exec now c (ts, g)))"
proof (cases c)
  case Tick
  with assms show ?thesis by (simp add: all_status_ok_tick)
next
  case (ToggleTape i)
  have "all_status_ok (toggleTape i ts)"
    unfolding toggleTape_def using _ assms by (rule all_status_ok_map) simp
  with ToggleTape show ?thesis by simp
next
  case (UpdateTapeField i f v)
  have "all_status_ok (updateTapeField i f v ts)"
    unfolding updateTapeField_def using _ assms by (rule all_status_ok_map) (simp add: set_field_keeps)
  with UpdateTapeField show ?thesis by simp
next
  case AddTape
  with assms show ?thesis by (simp add: all_status_ok_addTape)
next
  case (RemoveTape i)
  with assms show ?thesis by (auto simp: removeTape_def all_status_ok_def list_all_iff)
next
  case (AddSegmentToTape i)
  with assms show ?thesis by (simp add: all_status_ok_addSegmentToTape)
next
  case (RemoveSegmentFromTape i j)
  have "all_status_ok (removeSegmentFromTape i j ts)"
    unfolding removeSegmentFromTape_def using _ assms
    by (rule all_status_ok_map) (auto simp: list_all_iff)
  with RemoveSegmentFromTape show ?thesis by simp
next
  case (ToggleSegment i j)
  have "all_status_ok (toggleSegment i j ts)"
    unfolding toggleSegment_def using _ assms
    by (rule all_status_ok_map) (auto simp: list_all_iff status_ok_updates)
  with ToggleSegment show ?thesis by simp
next
  case (SetSegPower i j p)
  have "all_status_ok (setSegPower i j p ts)"
    unfolding setSegPower_def using _ assms
    by (rule all_status_ok_map) (auto simp: list_all_iff status_ok_updates)
  with SetSegPower show ?thesis by simp
next
  case (SetSegTargetTemp i j p)
  have "all_status_ok (setSegTargetTemp i j p ts)"
    unfolding setSegTargetTemp_def using _ assms
    by (rule all_status_ok_map) (auto simp: list_all_iff status_ok_updates)
  with SetSegTargetTemp show ?thesis by simp
next
  case (EnableAllSegments i)
  have "all_status_ok (enableAllSegments i ts)"
    unfolding enableAllSegments_def using _ assms
    by (rule all_status_ok_map) (auto simp: list_all_iff status_ok_updates)
  with EnableAllSegments show ?thesis by simp
next
  case (DisableAllSegments i)
  have "all_status_ok (disableAllSegments i ts)"
    unfolding disableAllSegments_def using _ assms
    by (rule all_status_ok_map) (auto simp: list_all_iff status_ok_updates)
  with DisableAllSegments show ?thesis by simp
qed

lemma reachable_status_ok: "reachable st \<Longrightarrow> all_status_ok (fst st)"
proof (induction rule: reachable.induct)
  case (init g now)
  show ?case by (rule all_status_ok_createInitialTapes)
next
  case (step st now c)
  then show ?case using all_status_ok_exec [of "fst st" now c "snd st"] by simp
qed

subsection \<open>Migration\<close>

lemma createSensor_valid: "valid_rng h \<Longrightarrow> valid_rng (snd (createSensor now i j h))"
  by (simp add: createSensor_def generateSerial_def hex_def Math_random_def split_beta valid_rng_def)

lemma createSensors_spec:
  assumes "valid_rng h"
  shows "length (fst (createSensors now i n h)) = n" and "valid_rng (snd (createSensors now i n h))"
proof -
  show "length (fst (createSensors now i n h)) = n"
    by (simp add: createSensors_def Array_from_def map_rng_length)
  have "list_all2 (\<lambda>_ _. True) [0..<n] (fst (map_rng (createSensor now i) [0..<n] h))
        \<and> valid_rng (snd (map_rng (createSensor now i) [0..<n] h))"
    using _ assms by (rule map_rng_all2_valid) (simp add: createSensor_valid)
  then show "valid_rng (snd (createSensors now i n h))"
    by (simp add: createSensors_def Array_from_def)
qed

text \<open>
  Three times the largest draw, \<open>3 - 3 * 2^-53\<close>, rounds to a double below 3: the error
  of the rounding is smaller than the distance to 3.
\<close>

lemma sensor_count:
  fixes r :: real
  assumes "0 \<le> r" "r \<le> 1 - 1 / 2 ^ 53"
  shows "2 \<le> nat (2 + \<lfloor>fl (r * 3)\<rfloor>)" and "nat (2 + \<lfloor>fl (r * 3)\<rfloor>) \<le> 4"
proof -
  define u :: real where "u = 1 / 2 ^ 53"
  have u: "0 < u" by (simp add: u_def)
  have lo: "0 \<le> fl (r * 3)" using assms(1) by (intro fl_nonneg) simp
  have r: "r \<le> 1 - u" using assms(2) by (simp add: u_def)
  have "\<bar>fl (r * 3) - r * 3\<bar> \<le> (r * 3) * u"
    using fl_error [of "r * 3"] assms(1) by (simp add: u_def)
  moreover have "(r * 3) * u \<le> ((1 - u) * 3) * u"
    using r u by (intro mult_right_mono) simp_all
  moreover have "((1 - u) * 3) * u = 3 * u - 3 * (u * u)" by (simp add: algebra_simps)
  moreover have "0 < u * u" using u by simp
  ultimately have "fl (r * 3) < 3" using r by linarith
  with lo have "0 \<le> \<lfloor>fl (r * 3)\<rfloor>" and "\<lfloor>fl (r * 3)\<rfloor> \<le> 2" by linarith+
  then show "2 \<le> nat (2 + \<lfloor>fl (r * 3)\<rfloor>)" and "nat (2 + \<lfloor>fl (r * 3)\<rfloor>) \<le> 4" by linarith+
qed

lemma migrateSegment_has_sensors:
  "has_sensors s \<Longrightarrow> migrateSegment now s h = (s, h)"
  by (auto simp: migrateSegment_def has_sensors_def)

lemma migrateSegment_spec:
  assumes "valid_rng h"
  shows "(\<exists>ss. fst (migrateSegment now s h) = s\<lparr> js_sensors := Some ss \<rparr>
            \<and> (case js_sensors s of None \<Rightarrow> 2 \<le> length ss \<and> length ss \<le> 4 | Some old \<Rightarrow> ss = old))
         \<and> valid_rng (snd (migrateSegment now s h))"
proof (cases "js_sensors s")
  case (Some old)
  then have "s\<lparr> js_sensors := Some old \<rparr> = s" by simp
  with Some assms show ?thesis by (simp add: migrateSegment_def)
next
  case None
  from assms have r: "0 \<le> h 0" "h 0 \<le> 1 - 1 / 2 ^ 53" and v: "valid_rng (\<lambda>n. h (Suc n))"
    by (simp_all add: valid_rng_def)
  let ?n = "nat (2 + \<lfloor>fl (h 0 * 3)\<rfloor>)"
  let ?c = "createSensors now (js_id s) ?n (\<lambda>n. h (Suc n))"
  have eq: "migrateSegment now s h = (s\<lparr> js_sensors := Some (fst ?c) \<rparr>, snd ?c)"
    using None by (simp add: migrateSegment_def Math_random_def split_beta)
  from createSensors_spec [OF v, of now "js_id s" ?n] sensor_count [OF r]
  have "2 \<le> length (fst ?c)" "length (fst ?c) \<le> 4" "valid_rng (snd ?c)" by simp_all
  with None show ?thesis unfolding eq by auto
qed

lemma migrateSegments_spec:
  assumes "valid_rng h"
  shows "list_all2 (\<lambda>s s'. \<exists>ss. s' = s\<lparr> js_sensors := Some ss \<rparr>
            \<and> (case js_sensors s of None \<Rightarrow> 2 \<le> length ss \<and> length ss \<le> 4 | Some old \<Rightarrow> ss = old))
           segs (fst (migrateSegments now segs h))
         \<and> valid_rng (snd (migrateSegments now segs h))"
  unfolding migrateSegments_def
  using _ assms by (rule map_rng_all2_valid) (rule migrateSegment_spec)

lemma migrateSegments_sensors:
  "list_all has_sensors (fst (migrateSegments now segs h))"
  unfolding migrateSegments_def
  by (rule list_all_map_rng [where Q = "\<lambda>_. True"])
     (auto simp: migrateSegment_def has_sensors_def split_beta list_all_iff split: option.splits)

lemma migrateSegments_fixed:
  "list_all has_sensors segs \<Longrightarrow> migrateSegments now segs h = (segs, h)"
  unfolding migrateSegments_def
  by (rule map_rng_id) (simp add: list_all_iff migrateSegment_has_sensors)

lemma migrateTape_current: "current_tape (fst (migrateTape now t h))"
  by (simp add: migrateTape_def current_tape_def split_beta migrateSegments_sensors)

lemma migrateTape_fixed: "current_tape t \<Longrightarrow> migrateTape now t h = (t, h)"
  by (auto simp: migrateTape_def current_tape_def nullish_def migrateSegments_fixed
           split: option.splits)

lemma migrateTapes_current: "list_all current_tape (fst (migrateTapes now ts h))"
  unfolding migrateTapes_def
  by (rule list_all_map_rng [where Q = "\<lambda>_. True"]) (simp_all add: migrateTape_current list_all_iff)

lemma migrateTapes_fixed: "list_all current_tape ts \<Longrightarrow> migrateTapes now ts h = (ts, h)"
  unfolding migrateTapes_def
  by (rule map_rng_id) (simp add: list_all_iff migrateTape_fixed)

lemma migrateLegacy_tapes: "b_tapes p \<noteq> None \<Longrightarrow> migrateLegacy now p g = (p, g)"
  by (auto simp: migrateLegacy_def split: option.splits)

lemma migrateLegacy_no_segments: "b_segments p = None \<Longrightarrow> migrateLegacy now p g = (p, g)"
  by (auto simp: migrateLegacy_def split: option.splits)

lemma migrate_shape:
  "(b_tapes (fst (migrate now S g)) = None \<and> b_segments (fst (migrate now S g)) = None)
   \<or> (\<exists>ts. b_tapes (fst (migrate now S g)) = Some ts \<and> list_all current_tape ts)"
proof (cases "b_tapes (fst (migrateLegacy now S g))")
  case None
  then have "b_tapes S = None \<and> b_segments S = None"
    by (auto simp: migrateLegacy_def split_beta split: option.splits)
  then show ?thesis by (simp add: migrate_def migrateLegacy_no_segments)
next
  case (Some ts)
  then have "b_tapes (fst (migrate now S g))
              = Some (fst (migrateTapes now ts (snd (migrateLegacy now S g))))"
    by (simp add: migrate_def split_beta)
  then show ?thesis by (simp add: migrateTapes_current)
qed

lemma migrate_fixed:
  assumes "(b_tapes p = None \<and> b_segments p = None)
           \<or> (\<exists>ts. b_tapes p = Some ts \<and> list_all current_tape ts)"
  shows "migrate now p g = (p, g)"
  using assms
proof
  assume "b_tapes p = None \<and> b_segments p = None"
  then show ?thesis by (simp add: migrate_def migrateLegacy_no_segments)
next
  assume "\<exists>ts. b_tapes p = Some ts \<and> list_all current_tape ts"
  then obtain ts where ts: "b_tapes p = Some ts" "list_all current_tape ts" by blast
  then have "p\<lparr> b_tapes := Some ts \<rparr> = p" by simp
  with ts show ?thesis by (simp add: migrate_def migrateLegacy_tapes migrateTapes_fixed)
qed

lemma migrate_idem: "migrate now' (fst (migrate now S g)) g' = (fst (migrate now S g), g')"
  using migrate_shape by (rule migrate_fixed)

lemma migrateTape_no_draw:
  "list_all has_sensors (nullish (jt_segments t) []) \<Longrightarrow> snd (migrateTape now t h) = h"
  by (simp add: migrateTape_def split_beta migrateSegments_fixed)

lemma map_rng_no_draw:
  "(\<And>x h. x \<in> set xs \<Longrightarrow> snd (f x h) = h) \<Longrightarrow> snd (map_rng f xs g) = g"
  by (induction xs arbitrary: g) (auto simp: split_beta)

section \<open>The claims\<close>

subsection \<open>C1: which segments the derived metrics count\<close>

text \<open>
  Claim C1: a segment contributes to \<open>activeCount\<close>, \<open>avgTemp\<close> and \<open>totalPower\<close> if
  and only if both the segment and its tape are enabled, so the segments of a disabled
  tape are excluded. The metrics are computed from \<open>enabledSegments\<close>, which filters the
  flattened segments on their own flag and never reads \<open>tape_enabled\<close>. At a state
  with one disabled tape that holds one enabled segment (power 60, temperature 2) the
  segment is counted: the count is 1, the mean is its temperature and the total power is
  its 0.3 kW, where the claim gives 0, the dash and 0.0.
\<close>

theorem metrics_count_segments_of_disabled_tape:
  "activeCount [sample_tape 1 False [sample_segment 1 True 2]] = 1
   \<and> avgTemp [sample_tape 1 False [sample_segment 1 True 2]] = ''2.0''
   \<and> totalPower [sample_tape 1 False [sample_segment 1 True 2]] = ''0.3''
   \<and> activeCount [] = 0 \<and> avgTemp [] = str_dash \<and> totalPower [] = ''0.0''"
proof -
  have a: "fl 2 = 2"
    by (rule fl_exact [where e = 1 and m = "2 ^ 52"]) simp_all
  have b: "fl (3 / 5) = 5404319552844595 / 9007199254740992"
    by (subst fl_eval [where e = "-1"]) (simp_all add: round_even_def)
  have c: "fl (5404319552844595 / 18014398509481984) = 5404319552844595 / 18014398509481984"
    by (rule fl_exact [where e = "-2" and m = 5404319552844595]) simp_all
  show ?thesis
    by (simp add: avgTemp_def totalPower_def activeCount_def enabledSegments_def allSegments_def
        sample_tape_def sample_segment_def fl_zero a b c toFixed1_def String_nat.simps)
qed

subsection \<open>C2: the simulation tick\<close>

text \<open>
  Claim C2: one tick changes the temperature of every effective-enabled segment by at
  most 0.75, the new temperature has exactly one decimal place, and every segment that
  is disabled or belongs to a disabled tape is left unchanged.

  The drift lies in \<open>[-0.75, 0.75)\<close>, and the rounding that follows it moves the value
  by up to 0.05 more. As stated the bound fails. A segment whose sensors all read -5, the
  lowest reading \<open>createSensors\<close> generates, starts at the temperature -5
  (\<open>createSegment\<close> under the draws 0). When it and its tape are enabled and the draw
  is \<open>1 - 2^-52\<close>, the drift is \<open>0.75 - 3 * 2^-53\<close>, the sum rounds to the double -4.25,
  ten times it is -42.5, which \<open>Math.round\<close> takes up to -42, and the tick stores the
  double for -4.2: a change of 0.8 (less \<open>2^-52\<close>).
\<close>

theorem tick_exceeds_three_quarters:
  "valid_rng (\<lambda>n. 0) \<and> valid_rng (\<lambda>n. 1 - 1 / 2 ^ 52)
   \<and> seg_temperature (fst (createSegment ''12:00:00'' 1 True (\<lambda>n. 0))) = - 5
   \<and> map (\<lambda>t. map seg_temperature (tape_segments t))
         (fst (tick [sample_tape 1 True [sample_segment 1 True (- 5)]] (\<lambda>n. 1 - 1 / 2 ^ 52)))
       = [[- 4728779608739021 / 1125899906842624]]
   \<and> \<not> \<bar>seg_temperature (hd (tape_segments (hd
             (fst (tick [sample_tape 1 True [sample_segment 1 True (- 5)]] (\<lambda>n. 1 - 1 / 2 ^ 52))))))
          - seg_temperature (sample_segment 1 True (- 5))\<bar> \<le> 75 / 100"
proof -
  have a: "fl (2251799813685247 / 4503599627370496) = 2251799813685247 / 4503599627370496"
    by (rule fl_exact [where e = "-2" and m = 9007199254740988]) simp_all
  have b: "fl (6755399441055741 / 9007199254740992) = 6755399441055741 / 9007199254740992"
    by (rule fl_exact [where e = "-1" and m = 6755399441055741]) simp_all
  have c: "fl (- (38280596832649219 / 9007199254740992)) = - (17 / 4)"
    by (subst fl_eval [where e = 2]) (simp_all add: round_even_def)
  have d: "fl (- (85 / 2)) = - (85 / 2)"
    by (rule fl_exact [where e = 5 and m = "- 5981343255101440"]) simp_all
  have e: "fl (- (21 / 5)) = - (4728779608739021 / 1125899906842624)"
    by (subst fl_eval [where e = 2]) (simp_all add: round_even_def)
  have tick: "fst (tick [sample_tape 1 True [sample_segment 1 True (- 5)]] (\<lambda>n. 1 - 1 / 2 ^ 52))
      = [sample_tape 1 True
           [(sample_segment 1 True (- 5))\<lparr> seg_temperature := - 4728779608739021 / 1125899906842624 \<rparr>]]"
    by (simp add: tick_def tick_tape_def tick_segment_def Math_random_def
        sample_tape_def sample_segment_def a b c d e)
  have f5: "fl (- 5) = - 5"
    by (rule fl_exact [where e = 2 and m = "- 5629499534213120"]) simp_all
  have f10: "fl (- 10) = - 10"
    by (rule fl_exact [where e = 3 and m = "- 5629499534213120"]) simp_all
  have f50: "fl (- 50) = - 50"
    by (rule fl_exact [where e = 5 and m = "- 7036874417766400"]) simp_all
  have sensor: "sensor_temperature (fst (createSensor now i j (\<lambda>n. 0))) = - 5"
      "snd (createSensor now i j (\<lambda>n. 0)) = (\<lambda>n. 0)" for now i j
    by (simp_all add: createSensor_def generateSerial_def hex_def Math_random_def split_beta fl_zero)
  have two: "[0..<2] = [0, 1]" by (simp add: upt_rec)
  have sensors: "map sensor_temperature (fst (createSensors now i 2 (\<lambda>n. 0))) = [- 5, - 5]" for now i
    by (simp add: createSensors_def Array_from_def two split_beta sensor)
  define S where "S = fst (createSensors ''12:00:00'' 1 2 (\<lambda>n. 0))"
  have len: "length S = 2"
    by (simp add: S_def createSensors_def Array_from_def map_rng_length)
  have "foldl (\<lambda>a s. fl (a + sensor_temperature s)) 0 S
          = foldl (\<lambda>a t. fl (a + t)) 0 (map sensor_temperature S)"
    by (simp add: foldl_map)
  also have "\<dots> = - 10" unfolding S_def sensors by (simp add: f5 f10)
  finally have sum: "foldl (\<lambda>a s. fl (a + sensor_temperature s)) 0 S = - 10" .
  have "seg_temperature (fst (createSegment ''12:00:00'' 1 True (\<lambda>n. 0)))
          = fl (of_int \<lfloor>fl (fl (foldl (\<lambda>a s. fl (a + sensor_temperature s)) 0 S / real (length S)) * 10)
                           + 1 / 2\<rfloor> / 10)"
    by (simp add: createSegment_def Math_random_def split_beta fl_zero S_def Let_def)
  also have "\<dots> = - 5" unfolding sum len by (simp add: f5 f50)
  finally have start: "seg_temperature (fst (createSegment ''12:00:00'' 1 True (\<lambda>n. 0))) = - 5" .
  have v: "valid_rng (\<lambda>n. 0)" "valid_rng (\<lambda>n. 1 - 1 / 2 ^ 52)"
    by (simp_all add: valid_rng_def)
  show ?thesis
    unfolding tick using v start by (simp add: sample_tape_def sample_segment_def)
qed

text \<open>
  Claim C2 as amended: for every random sequence of doubles in \<open>[0, 1)\<close>, one tick keeps
  the tapes and their segments in place and changes nothing but segment temperatures; for
  an enabled segment of an enabled tape the new temperature is a number with one decimal
  place rounded to a double, and it differs from the old temperature \<open>T\<close> by at most
  \<open>0.8 + (4 * |T| + 7) * 2^-53\<close>, the 0.75 of the drift, the 0.05 of the rounding to a
  tenth and the error of the five double roundings; a segment that is disabled or belongs
  to a disabled tape is returned as it is.
\<close>

theorem tick_bounded_rounded:
  assumes "valid_rng g"
  shows "list_all2
           (\<lambda>t t'. t' = t\<lparr> tape_segments := tape_segments t' \<rparr>
              \<and> list_all2
                  (\<lambda>s s'. if seg_enabled s \<and> tape_enabled t
                          then s' = s\<lparr> seg_temperature := seg_temperature s' \<rparr>
                             \<and> one_decimal (seg_temperature s')
                             \<and> \<bar>seg_temperature s' - seg_temperature s\<bar>
                                 \<le> 8 / 10 + (4 * \<bar>seg_temperature s\<bar> + 7) / 2 ^ 53
                          else s' = s)
                  (tape_segments t) (tape_segments t'))
           tapes (fst (tick tapes g))"
proof -
  have tape: "(fst (tick_tape t h) = t\<lparr> tape_segments := tape_segments (fst (tick_tape t h)) \<rparr>
              \<and> list_all2
                  (\<lambda>s s'. if seg_enabled s \<and> tape_enabled t
                          then s' = s\<lparr> seg_temperature := seg_temperature s' \<rparr>
                             \<and> one_decimal (seg_temperature s')
                             \<and> \<bar>seg_temperature s' - seg_temperature s\<bar>
                                 \<le> 8 / 10 + (4 * \<bar>seg_temperature s\<bar> + 7) / 2 ^ 53
                          else s' = s)
                  (tape_segments t) (tape_segments (fst (tick_tape t h))))
             \<and> valid_rng (snd (tick_tape t h))" if "valid_rng h" for t h
  proof -
    have "list_all2
                  (\<lambda>s s'. if seg_enabled s \<and> tape_enabled t
                          then s' = s\<lparr> seg_temperature := seg_temperature s' \<rparr>
                             \<and> one_decimal (seg_temperature s')
                             \<and> \<bar>seg_temperature s' - seg_temperature s\<bar>
                                 \<le> 8 / 10 + (4 * \<bar>seg_temperature s\<bar> + 7) / 2 ^ 53
                          else s' = s)
             (tape_segments t) (fst (map_rng (tick_segment t) (tape_segments t) h))
          \<and> valid_rng (snd (map_rng (tick_segment t) (tape_segments t) h))"
      by (rule map_rng_all2_valid) (use that tick_segment_spec in blast)+
    then show ?thesis by (simp add: tick_tape_def split_beta)
  qed
  have "list_all2
           (\<lambda>t t'. t' = t\<lparr> tape_segments := tape_segments t' \<rparr>
              \<and> list_all2
                  (\<lambda>s s'. if seg_enabled s \<and> tape_enabled t
                          then s' = s\<lparr> seg_temperature := seg_temperature s' \<rparr>
                             \<and> one_decimal (seg_temperature s')
                             \<and> \<bar>seg_temperature s' - seg_temperature s\<bar>
                                 \<le> 8 / 10 + (4 * \<bar>seg_temperature s\<bar> + 7) / 2 ^ 53
                          else s' = s)
                  (tape_segments t) (tape_segments t'))
           tapes (fst (map_rng tick_tape tapes g))
        \<and> valid_rng (snd (map_rng tick_tape tapes g))"
    by (rule map_rng_all2_valid) (use assms tape in blast)+
  then show ?thesis by (simp add: tick_def)
qed

theorem tick_bounded_rounded_witness:
  "valid_rng (\<lambda>n. 3 / 4)
   \<and> map (\<lambda>t. map seg_temperature (tape_segments t)) (fst (tick sample_mixed_tapes (\<lambda>n. 3 / 4)))
       = [[5404319552844595 / 2251799813685248, 3], [4]]"
proof -
  have a: "fl (1 / 4) = 1 / 4"
    by (rule fl_exact [where e = "-2" and m = "2 ^ 52"]) simp_all
  have b: "fl (3 / 8) = 3 / 8"
    by (rule fl_exact [where e = "-2" and m = 6755399441055744]) simp_all
  have c: "fl (19 / 8) = 19 / 8"
    by (rule fl_exact [where e = 1 and m = 5348024557502464]) simp_all
  have d: "fl (95 / 4) = 95 / 4"
    by (rule fl_exact [where e = 4 and m = 6685030696878080]) simp_all
  have e: "fl (12 / 5) = 5404319552844595 / 2251799813685248"
    by (subst fl_eval [where e = 1]) (simp_all add: round_even_def)
  show ?thesis
    using tick_bounded_rounded [of "\<lambda>n. 3 / 4" sample_mixed_tapes]
    by (simp add: valid_rng_def tick_def tick_tape_def tick_segment_def Math_random_def
        sample_mixed_tapes_def sample_tape_def sample_segment_def a b c d e)
qed

subsection \<open>C3: adding a tape\<close>

text \<open>
  Claim C3: \<open>addTape\<close> appends exactly one tape. Its id is the largest tape id plus
  one (1 when there is no tape); it has exactly four segments, whose ids are consecutive
  and start one above the largest segment id of all tapes (at 1 when there is no
  segment); the first three are enabled and the last is disabled. From two tapes that
  hold the segment ids 1 to 12 the new tape has id 3 and the segment ids 13 to 16.
\<close>

theorem addTape_appends_tape_of_four:
  "\<exists>t. fst (addTape now tapes g) = tapes @ [t]
     \<and> tape_id t = (if tapes = [] then 1 else Max (tape_id ` set tapes) + 1)
     \<and> map seg_id (tape_segments t)
         = (let m = (if allSegments tapes = [] then 0 else Max (seg_id ` set (allSegments tapes)))
            in [m + 1, m + 2, m + 3, m + 4])
     \<and> map seg_enabled (tape_segments t) = [True, True, True, False]
     \<and> (map tape_id tapes = [1, 2] \<and> seg_id ` set (allSegments tapes) = {1..12}
          \<longrightarrow> tape_id t = 3 \<and> map seg_id (tape_segments t) = [13, 14, 15, 16])"
proof -
  define mt where "mt = foldl (\<lambda>m t. max m (tape_id t)) 0 tapes"
  define t where "t = fst (createTape now (mt + 1) (getMaxSegId tapes + 1) 4 g)"
  have app: "fst (addTape now tapes g) = tapes @ [t]"
    by (simp add: addTape_def t_def mt_def split_beta Let_def)
  have mt: "mt = (if tapes = [] then 0 else Max (tape_id ` set tapes))"
    unfolding mt_def foldl_max_tape_id
    by (cases "tapes = []") (simp_all add: max_absorb2)
  have tid: "tape_id t = (if tapes = [] then 1 else Max (tape_id ` set tapes) + 1)"
    by (simp add: t_def createTape_fields mt)
  have sids: "map seg_id (tape_segments t)
         = (let m = (if allSegments tapes = [] then 0 else Max (seg_id ` set (allSegments tapes)))
            in [m + 1, m + 2, m + 3, m + 4])"
    by (simp add: t_def createTape_four getMaxSegId_Max Let_def)
  have en: "map seg_enabled (tape_segments t) = [True, True, True, False]"
    by (simp add: t_def createTape_four)
  have inst: "tape_id t = 3 \<and> map seg_id (tape_segments t) = [13, 14, 15, 16]"
    if h: "map tape_id tapes = [1, 2] \<and> seg_id ` set (allSegments tapes) = {1..12}"
  proof -
    from h have ids: "map tape_id tapes = [1, 2]" and segs: "seg_id ` set (allSegments tapes) = {1..12}"
      by simp_all
    from ids have ne1: "tapes \<noteq> []" by auto
    from segs have ne2: "allSegments tapes \<noteq> []" by auto
    have "tape_id ` set tapes = set (map tape_id tapes)" by simp
    then have "Max (tape_id ` set tapes) = Max (set [1, 2])" unfolding ids by simp
    then have m1: "Max (tape_id ` set tapes) = 2" by simp
    have m2: "Max (seg_id ` set (allSegments tapes)) = 12"
      unfolding segs by (rule Max_eqI) auto
    show ?thesis using ne1 ne2 by (simp add: tid sids m1 m2)
  qed
  show ?thesis
  proof (rule exI [of _ t], intro conjI impI)
    show "fst (addTape now tapes g) = tapes @ [t]" by (rule app)
    show "tape_id t = (if tapes = [] then 1 else Max (tape_id ` set tapes) + 1)" by (rule tid)
    show "map seg_id (tape_segments t)
         = (let m = (if allSegments tapes = [] then 0 else Max (seg_id ` set (allSegments tapes)))
            in [m + 1, m + 2, m + 3, m + 4])" by (rule sids)
    show "map seg_enabled (tape_segments t) = [True, True, True, False]" by (rule en)
  next
    assume "map tape_id tapes = [1, 2] \<and> seg_id ` set (allSegments tapes) = {1..12}"
    then show "tape_id t = 3" using inst by simp
  next
    assume "map tape_id tapes = [1, 2] \<and> seg_id ` set (allSegments tapes) = {1..12}"
    then show "map seg_id (tape_segments t) = [13, 14, 15, 16]" using inst by simp
  qed
qed

theorem addTape_appends_tape_of_four_witness:
  "map tape_id sample_two_tapes = [1, 2]
   \<and> seg_id ` set (allSegments sample_two_tapes) = {1..12}
   \<and> butlast (fst (addTape ''12:00:00'' sample_two_tapes (\<lambda>n. 0))) = sample_two_tapes
   \<and> tape_id (last (fst (addTape ''12:00:00'' sample_two_tapes (\<lambda>n. 0)))) = 3
   \<and> map seg_id (tape_segments (last (fst (addTape ''12:00:00'' sample_two_tapes (\<lambda>n. 0)))))
       = [13, 14, 15, 16]"
proof -
  have a: "map tape_id sample_two_tapes = [1, 2]"
    by (simp add: sample_two_tapes_def sample_tape_def)
  have b: "seg_id ` set (allSegments sample_two_tapes) = {1..12}"
    by code_simp
  show ?thesis
    using addTape_appends_tape_of_four [of "''12:00:00''" sample_two_tapes "\<lambda>n. 0"] a b
    by (elim exE conjE) simp
qed

subsection \<open>C4: the guards of the two remove commands\<close>

text \<open>
  Claim C4: in every state reachable from the default system, \<open>removeTape\<close> returns the
  tapes unchanged when exactly one tape remains and otherwise deletes the addressed tape
  (the others stay, in order; if the id occurs, exactly one tape goes), so that at least
  one tape is left; \<open>removeSegmentFromTape\<close> returns the addressed tape unchanged when
  it has only one segment and otherwise deletes the addressed segment, leaves every other
  tape as it is, and leaves at least one segment in every tape. Both commands are total
  functions to the next state: a rejection is the unchanged state, not an error.
\<close>

theorem remove_guards_keep_nonempty:
  assumes "reachable (ts, g)"
  shows "(length ts = 1 \<longrightarrow> removeTape i ts = ts)
       \<and> (1 < length ts \<longrightarrow>
            removeTape i ts = filter (\<lambda>t. tape_id t \<noteq> i) ts
          \<and> i \<notin> tape_id ` set (removeTape i ts)
          \<and> (i \<in> tape_id ` set ts \<longrightarrow> length (removeTape i ts) = length ts - 1))
       \<and> 1 \<le> length (removeTape i ts)
       \<and> list_all2
           (\<lambda>t t'. (if tape_id t = i
                    then (length (tape_segments t) = 1 \<longrightarrow> t' = t)
                       \<and> (1 < length (tape_segments t) \<longrightarrow>
                            t' = t\<lparr> tape_segments := filter (\<lambda>s. seg_id s \<noteq> j) (tape_segments t) \<rparr>
                          \<and> (j \<in> seg_id ` set (tape_segments t)
                               \<longrightarrow> length (tape_segments t') = length (tape_segments t) - 1))
                    else t' = t)
                   \<and> 1 \<le> length (tape_segments t'))
           ts (removeSegmentFromTape i j ts)"
proof -
  from reachable_ids [OF assms] have u: "sh_unique (shape ts)" and n: "sh_nonempty (shape ts)"
    by simp_all
  from u have dt: "distinct (map tape_id ts)" by (simp add: sh_unique_def shape_ids)
  have one: "length ts = 1 \<longrightarrow> removeTape i ts = ts" by (simp add: removeTape_def)
  have many: "1 < length ts \<longrightarrow>
            removeTape i ts = filter (\<lambda>t. tape_id t \<noteq> i) ts
          \<and> i \<notin> tape_id ` set (removeTape i ts)
          \<and> (i \<in> tape_id ` set ts \<longrightarrow> length (removeTape i ts) = length ts - 1)"
    using filter_neq_length(2) [OF dt, of i] by (auto simp: removeTape_def)
  from sh_nonempty_removeTape [OF u n, of i] have "shape (removeTape i ts) \<noteq> []"
    by (simp add: sh_nonempty_def)
  then have "removeTape i ts \<noteq> []" by (auto simp: shape_def)
  then have ge: "1 \<le> length (removeTape i ts)" by (simp add: Suc_leI)
  have segs: "list_all2
           (\<lambda>t t'. (if tape_id t = i
                    then (length (tape_segments t) = 1 \<longrightarrow> t' = t)
                       \<and> (1 < length (tape_segments t) \<longrightarrow>
                            t' = t\<lparr> tape_segments := filter (\<lambda>s. seg_id s \<noteq> j) (tape_segments t) \<rparr>
                          \<and> (j \<in> seg_id ` set (tape_segments t)
                               \<longrightarrow> length (tape_segments t') = length (tape_segments t) - 1))
                    else t' = t)
                   \<and> 1 \<le> length (tape_segments t'))
           ts (removeSegmentFromTape i j ts)"
    unfolding removeSegmentFromTape_def
  proof (rule list_all2_mapI)
    fix t assume t: "t \<in> set ts"
    then have "(tape_id t, map seg_id (tape_segments t)) \<in> set (shape ts)"
      by (auto simp: shape_def)
    with u n have ds: "distinct (map seg_id (tape_segments t))" and ne: "tape_segments t \<noteq> []"
      using sh_unique_parts [OF u, of "(tape_id t, map seg_id (tape_segments t))"]
      by (auto simp: sh_nonempty_def)
    from ne have len: "1 \<le> length (tape_segments t)" by (simp add: Suc_leI)
    let ?f = "filter (\<lambda>s. seg_id s \<noteq> j) (tape_segments t)"
    from filter_neq_length [OF ds, of j]
    have f1: "length (tape_segments t) - 1 \<le> length ?f"
      and f2: "j \<in> seg_id ` set (tape_segments t) \<Longrightarrow> length ?f = length (tape_segments t) - 1"
      by simp_all
    show "(if tape_id t = i
           then (length (tape_segments t) = 1 \<longrightarrow>
                   (if tape_id t = i
                    then t\<lparr> tape_segments := (if length (tape_segments t) > 1 then ?f else tape_segments t) \<rparr>
                    else t) = t)
              \<and> (1 < length (tape_segments t) \<longrightarrow>
                   (if tape_id t = i
                    then t\<lparr> tape_segments := (if length (tape_segments t) > 1 then ?f else tape_segments t) \<rparr>
                    else t) = t\<lparr> tape_segments := ?f \<rparr>
                 \<and> (j \<in> seg_id ` set (tape_segments t)
                      \<longrightarrow> length (tape_segments
                            (if tape_id t = i
                             then t\<lparr> tape_segments := (if length (tape_segments t) > 1 then ?f else tape_segments t) \<rparr>
                             else t)) = length (tape_segments t) - 1))
           else (if tape_id t = i
                 then t\<lparr> tape_segments := (if length (tape_segments t) > 1 then ?f else tape_segments t) \<rparr>
                 else t) = t)
          \<and> 1 \<le> length (tape_segments
                            (if tape_id t = i
                             then t\<lparr> tape_segments := (if length (tape_segments t) > 1 then ?f else tape_segments t) \<rparr>
                             else t))"
    proof (cases "tape_id t = i")
      case False
      with len show ?thesis by simp
    next
      case True
      show ?thesis
      proof (cases "1 < length (tape_segments t)")
        case False
        with len have "length (tape_segments t) = 1" by linarith
        with True show ?thesis by simp
      next
        case long: True
        with f1 have "1 \<le> length ?f" by linarith
        with True long f2 show ?thesis by simp
      qed
    qed
  qed
  from one many ge segs show ?thesis by blast
qed

theorem remove_guards_keep_nonempty_witness:
  "reachable (createInitialTapes ''12:00:00'' (\<lambda>n. 0))
   \<and> reachable (exec ''12:00:05'' (RemoveTape 1) (createInitialTapes ''12:00:00'' (\<lambda>n. 0)))
   \<and> shape (removeTape 1 (fst (createInitialTapes ''12:00:00'' (\<lambda>n. 0))))
       = [(2, [7, 8, 9, 10, 11, 12])]
   \<and> removeTape 2 (removeTape 1 (fst (createInitialTapes ''12:00:00'' (\<lambda>n. 0))))
       = removeTape 1 (fst (createInitialTapes ''12:00:00'' (\<lambda>n. 0)))
   \<and> shape (removeSegmentFromTape 1 1 (fst (createInitialTapes ''12:00:00'' (\<lambda>n. 0))))
       = [(1, [2, 3, 4, 5, 6]), (2, [7, 8, 9, 10, 11, 12])]
   \<and> 1 \<le> length (removeTape 1 (fst (createInitialTapes ''12:00:00'' (\<lambda>n. 0))))"
proof -
  let ?st = "createInitialTapes ''12:00:00'' (\<lambda>n. 0)"
  have v: "valid_rng (\<lambda>n. 0)" by (simp add: valid_rng_def)
  have r0: "reachable ?st" using v by (rule reachable.init)
  have r1: "reachable (exec ''12:00:05'' (RemoveTape 1) ?st)" using r0 by (rule reachable.step)
  have ex: "exec ''12:00:05'' (RemoveTape 1) ?st = (removeTape 1 (fst ?st), snd ?st)"
    by (cases ?st) simp
  have s1: "shape (removeTape 1 (fst ?st)) = [(2, [7, 8, 9, 10, 11, 12])]"
    by (simp add: shape_removeTape shape_createInitialTapes)
  then have "length (shape (removeTape 1 (fst ?st))) = 1" by simp
  then have l1: "length (removeTape 1 (fst ?st)) = 1" by (simp add: length_shape)
  have s2: "shape (removeSegmentFromTape 1 1 (fst ?st))
       = [(1, [2, 3, 4, 5, 6]), (2, [7, 8, 9, 10, 11, 12])]"
    by (simp add: shape_removeSegmentFromTape shape_createInitialTapes)
  from remove_guards_keep_nonempty [of "removeTape 1 (fst ?st)" "snd ?st" 2 1] r1 l1
  have noop: "removeTape 2 (removeTape 1 (fst ?st)) = removeTape 1 (fst ?st)"
    unfolding ex by blast
  from remove_guards_keep_nonempty [of "fst ?st" "snd ?st" 1 1] r0
  have ge: "1 \<le> length (removeTape 1 (fst ?st))" by simp
  from r0 r1 s1 noop s2 ge show ?thesis by blast
qed

subsection \<open>C5: identifiers stay unique and grow\<close>

text \<open>
  Claim C5: from a state in which no two tapes share an id and no two segments share an
  id, any finite sequence of \<open>addTape\<close> and \<open>addSegmentToTape\<close> calls leads to a
  state with the same two properties; and at every such call, from any state, each tape
  id and each segment id that the call introduces is strictly greater than every tape
  id, respectively segment id, present before the call.
\<close>

theorem adds_keep_ids_unique_and_increasing:
  "(distinct (map tape_id ts) \<and> distinct (map seg_id (allSegments ts)) \<and> (\<forall>e \<in> set evs. is_add (snd e))
      \<longrightarrow> distinct (map tape_id (fst (run evs (ts, g))))
        \<and> distinct (map seg_id (allSegments (fst (run evs (ts, g))))))
   \<and> (is_add c \<longrightarrow>
        (\<forall>i \<in> set (map tape_id (fst (exec now c (ts, g)))) - set (map tape_id ts).
           \<forall>j \<in> set (map tape_id ts). j < i)
      \<and> (\<forall>i \<in> set (map seg_id (allSegments (fst (exec now c (ts, g))))) - set (map seg_id (allSegments ts)).
           \<forall>j \<in> set (map seg_id (allSegments ts)). j < i))"
proof (intro conjI impI)
  assume a: "distinct (map tape_id ts) \<and> distinct (map seg_id (allSegments ts)) \<and> (\<forall>e \<in> set evs. is_add (snd e))"
  then have "sh_unique (shape (fst (ts, g)))" by (simp add: sh_unique_def shape_ids)
  with a have "sh_unique (shape (fst (run evs (ts, g))))" by (simp add: run_adds_unique)
  then show "distinct (map tape_id (fst (run evs (ts, g))))"
    and "distinct (map seg_id (allSegments (fst (run evs (ts, g)))))"
    by (simp_all add: sh_unique_def shape_ids)
next
  assume "is_add c"
  from exec_add_fresh [OF this, of now ts g]
  show "\<forall>i \<in> set (map tape_id (fst (exec now c (ts, g)))) - set (map tape_id ts).
           \<forall>j \<in> set (map tape_id ts). j < i"
    and "\<forall>i \<in> set (map seg_id (allSegments (fst (exec now c (ts, g))))) - set (map seg_id (allSegments ts)).
           \<forall>j \<in> set (map seg_id (allSegments ts)). j < i"
    unfolding shape_ids by blast+
qed

theorem adds_keep_ids_unique_and_increasing_witness:
  "distinct (map tape_id sample_two_tapes) \<and> distinct (map seg_id (allSegments sample_two_tapes))
   \<and> map tape_id (fst (run [(''12:00:00'', AddTape), (''12:00:05'', AddSegmentToTape 1)]
                          (sample_two_tapes, \<lambda>n. 0))) = [1, 2, 3]
   \<and> map seg_id (allSegments (fst (run [(''12:00:00'', AddTape), (''12:00:05'', AddSegmentToTape 1)]
                                      (sample_two_tapes, \<lambda>n. 0))))
       = [1, 2, 3, 4, 5, 6, 17, 7, 8, 9, 10, 11, 12, 13, 14, 15, 16]
   \<and> distinct (map seg_id (allSegments (fst (run [(''12:00:00'', AddTape), (''12:00:05'', AddSegmentToTape 1)]
                                      (sample_two_tapes, \<lambda>n. 0)))))"
proof -
  let ?st = "addTape ''12:00:00'' sample_two_tapes (\<lambda>n. 0)"
  have s0: "shape sample_two_tapes = [(1, [1, 2, 3, 4, 5, 6]), (2, [7, 8, 9, 10, 11, 12])]"
    by code_simp
  have s1: "shape (fst ?st)
              = [(1, [1, 2, 3, 4, 5, 6]), (2, [7, 8, 9, 10, 11, 12]), (3, [13, 14, 15, 16])]"
    by (simp add: shape_addTape getMaxSegId_shape max_tape_id_shape s0)
  have s2: "shape (fst (addSegmentToTape ''12:00:05'' 1 (fst ?st) (snd ?st)))
              = [(1, [1, 2, 3, 4, 5, 6, 17]), (2, [7, 8, 9, 10, 11, 12]), (3, [13, 14, 15, 16])]"
    by (simp add: shape_addSegmentToTape getMaxSegId_shape s1)
  have r: "run [(''12:00:00'', AddTape), (''12:00:05'', AddSegmentToTape 1)] (sample_two_tapes, \<lambda>n. 0)
             = addSegmentToTape ''12:00:05'' 1 (fst ?st) (snd ?st)"
    by (cases ?st) simp
  have a: "distinct (map tape_id sample_two_tapes)"
    and b: "distinct (map seg_id (allSegments sample_two_tapes))"
    by (simp_all add: shape_ids s0)
  have c: "\<forall>e \<in> set [(''12:00:00'', AddTape), (''12:00:05'', AddSegmentToTape 1)]. is_add (snd e)"
    by simp
  have d: "map tape_id (fst (run [(''12:00:00'', AddTape), (''12:00:05'', AddSegmentToTape 1)]
                          (sample_two_tapes, \<lambda>n. 0))) = [1, 2, 3]"
    unfolding r shape_ids s2 by simp_all
  have e: "map seg_id (allSegments (fst (run [(''12:00:00'', AddTape), (''12:00:05'', AddSegmentToTape 1)]
                                      (sample_two_tapes, \<lambda>n. 0))))
       = [1, 2, 3, 4, 5, 6, 17, 7, 8, 9, 10, 11, 12, 13, 14, 15, 16]"
    unfolding r shape_ids s2 by simp_all
  from adds_keep_ids_unique_and_increasing
         [of sample_two_tapes "[(''12:00:00'', AddTape), (''12:00:05'', AddSegmentToTape 1)]" "\<lambda>n. 0"
             AddTape "''12:00:00''"] a b c
  have "distinct (map seg_id (allSegments (fst (run [(''12:00:00'', AddTape), (''12:00:05'', AddSegmentToTape 1)]
                                      (sample_two_tapes, \<lambda>n. 0)))))" by blast
  with a b d e show ?thesis by blast
qed

subsection \<open>C6: the status is off exactly when the segment is disabled\<close>

text \<open>
  Claim C6: the segment invariant "\<open>status = off\<close> iff \<open>enabled = false\<close>" is
  established by \<open>createSegment\<close>, holds in the freshly generated default system, is
  preserved by every command and by the simulation tick, and so holds in every reachable
  state. \<open>toggleSegment\<close> flips \<open>enabled\<close> on the addressed segments and sets their
  status to \<open>normal\<close> when enabling and to \<open>off\<close> when disabling; the two bulk
  commands enable, respectively disable, every segment of the addressed tape with status
  \<open>normal\<close>, respectively \<open>off\<close>; all three leave every other segment as it is.
\<close>

theorem status_off_iff_disabled_invariant:
  "status_ok (fst (createSegment now k e g))
   \<and> all_status_ok (fst (createInitialTapes now g))
   \<and> (all_status_ok ts \<longrightarrow> all_status_ok (fst (exec now c (ts, g))))
   \<and> (reachable st \<longrightarrow> all_status_ok (fst st))
   \<and> list_all2
        (\<lambda>t t'. list_all2
                  (\<lambda>s s'. if tape_id t = i \<and> seg_id s = j
                          then seg_enabled s' = (\<not> seg_enabled s)
                             \<and> seg_status s' = (if seg_enabled s then Off else Normal)
                          else s' = s)
                  (tape_segments t) (tape_segments t'))
        ts (toggleSegment i j ts)
   \<and> list_all2
        (\<lambda>t t'. list_all2
                  (\<lambda>s s'. if tape_id t = i then seg_enabled s' \<and> seg_status s' = Normal else s' = s)
                  (tape_segments t) (tape_segments t'))
        ts (enableAllSegments i ts)
   \<and> list_all2
        (\<lambda>t t'. list_all2
                  (\<lambda>s s'. if tape_id t = i then \<not> seg_enabled s' \<and> seg_status s' = Off else s' = s)
                  (tape_segments t) (tape_segments t'))
        ts (disableAllSegments i ts)"
proof (intro conjI impI)
  show "status_ok (fst (createSegment now k e g))" by (rule status_ok_createSegment)
  show "all_status_ok (fst (createInitialTapes now g))" by (rule all_status_ok_createInitialTapes)
  show "all_status_ok (fst (exec now c (ts, g)))" if "all_status_ok ts"
    using that by (rule all_status_ok_exec)
  show "all_status_ok (fst st)" if "reachable st"
    using that by (rule reachable_status_ok)
  show "list_all2
        (\<lambda>t t'. list_all2
                  (\<lambda>s s'. if tape_id t = i \<and> seg_id s = j
                          then seg_enabled s' = (\<not> seg_enabled s)
                             \<and> seg_status s' = (if seg_enabled s then Off else Normal)
                          else s' = s)
                  (tape_segments t) (tape_segments t'))
        ts (toggleSegment i j ts)"
    unfolding toggleSegment_def
    by (rule list_all2_mapI) (simp add: list_all2_map2 list_all2_same)
  show "list_all2
        (\<lambda>t t'. list_all2
                  (\<lambda>s s'. if tape_id t = i then seg_enabled s' \<and> seg_status s' = Normal else s' = s)
                  (tape_segments t) (tape_segments t'))
        ts (enableAllSegments i ts)"
    unfolding enableAllSegments_def
    by (rule list_all2_mapI) (simp add: list_all2_map2 list_all2_same)
  show "list_all2
        (\<lambda>t t'. list_all2
                  (\<lambda>s s'. if tape_id t = i then \<not> seg_enabled s' \<and> seg_status s' = Off else s' = s)
                  (tape_segments t) (tape_segments t'))
        ts (disableAllSegments i ts)"
    unfolding disableAllSegments_def
    by (rule list_all2_mapI) (simp add: list_all2_map2 list_all2_same)
qed

theorem status_off_iff_disabled_invariant_witness:
  "all_status_ok sample_mixed_tapes
   \<and> reachable (createInitialTapes ''12:00:00'' (\<lambda>n. 0))
   \<and> all_status_ok (fst (createInitialTapes ''12:00:00'' (\<lambda>n. 0)))
   \<and> all_status_ok (fst (exec ''12:00:00'' (ToggleSegment 1 2) (sample_mixed_tapes, \<lambda>n. 0)))
   \<and> map (\<lambda>t. map (\<lambda>s. (seg_enabled s, seg_status s)) (tape_segments t))
        (toggleSegment 1 2 sample_mixed_tapes)
       = [[(True, Normal), (True, Normal)], [(True, Normal)]]
   \<and> map (\<lambda>t. map (\<lambda>s. (seg_enabled s, seg_status s)) (tape_segments t))
        (toggleSegment 1 1 sample_mixed_tapes)
       = [[(False, Off), (False, Off)], [(True, Normal)]]"
proof -
  have a: "all_status_ok sample_mixed_tapes"
    by (simp add: all_status_ok_def status_ok_def sample_mixed_tapes_def sample_tape_def sample_segment_def)
  have r: "reachable (createInitialTapes ''12:00:00'' (\<lambda>n. 0))"
    by (rule reachable.init) (simp add: valid_rng_def)
  have t1: "map (\<lambda>t. map (\<lambda>s. (seg_enabled s, seg_status s)) (tape_segments t))
        (toggleSegment 1 2 sample_mixed_tapes)
       = [[(True, Normal), (True, Normal)], [(True, Normal)]]"
    by (simp add: toggleSegment_def sample_mixed_tapes_def sample_tape_def sample_segment_def)
  have t2: "map (\<lambda>t. map (\<lambda>s. (seg_enabled s, seg_status s)) (tape_segments t))
        (toggleSegment 1 1 sample_mixed_tapes)
       = [[(False, Off), (False, Off)], [(True, Normal)]]"
    by (simp add: toggleSegment_def sample_mixed_tapes_def sample_tape_def sample_segment_def)
  from status_off_iff_disabled_invariant
         [of "''12:00:00''" 1 True "\<lambda>n. 0" sample_mixed_tapes "ToggleSegment 1 2"
             "createInitialTapes ''12:00:00'' (\<lambda>n. 0)" 1 2] a r
  have "all_status_ok (fst (createInitialTapes ''12:00:00'' (\<lambda>n. 0)))"
    and "all_status_ok (fst (exec ''12:00:00'' (ToggleSegment 1 2) (sample_mixed_tapes, \<lambda>n. 0)))"
    by blast+
  then show ?thesis using a r t1 t2 by simp
qed

subsection \<open>C7: loading a legacy blob\<close>

text \<open>
  Claim C7: a stored blob with a top-level \<open>segments\<close> array and no \<open>tapes\<close> loads
  as the same blob with the \<open>segments\<close> property removed and a \<open>tapes\<close> array of
  exactly one tape: id 1, empty coordinates and contract number, length and width taken
  from \<open>tapeLength\<close> and \<open>tapeWidth\<close> or defaulted to "24" and "50", enabled, holding
  exactly the legacy segments, each with a non-empty \<open>sensors\<close> array: 2 to 4 generated
  sensors where the segment had none.

  \<open>migrateSegments\<close> generates sensors only where \<open>s.sensors\<close> is falsy, which an empty
  array is not: a legacy segment stored with \<open>sensors: []\<close> is returned as it is, and
  the loaded tape holds a segment with an empty \<open>sensors\<close> array.
\<close>

theorem legacy_segment_keeps_empty_sensors:
  "valid_rng (\<lambda>n. 1 / 2)
   \<and> b_segments (sample_blob (Some [sample_jsegment 1 (Some [])]) None)
       = Some [sample_jsegment 1 (Some [])]
   \<and> b_tapes (sample_blob (Some [sample_jsegment 1 (Some [])]) None) = None
   \<and> map_option
        (\<lambda>p. map (\<lambda>t. map js_sensors (nullish (jt_segments t) [])) (nullish (b_tapes p) []))
        (fst (loadSettings ''12:00:00'' (Some (sample_blob (Some [sample_jsegment 1 (Some [])]) None))
                (\<lambda>n. 1 / 2)))
       = Some [[Some []]]"
  by (simp add: valid_rng_def loadSettings_def migrate_def migrateLegacy_def migrateTapes_def
      migrateTape_def migrateSegments_def migrateSegment_def nullish_def sample_blob_def
      sample_jsegment_def)

text \<open>
  Claim C7 as amended: for every random sequence of doubles in \<open>[0, 1)\<close>, a stored blob
  with a top-level \<open>segments\<close> array and no \<open>tapes\<close> loads as the same blob with the
  \<open>segments\<close> property removed and a \<open>tapes\<close> array of exactly one tape: id 1, empty
  coordinates and contract number, length and width taken from \<open>tapeLength\<close> and
  \<open>tapeWidth\<close> or defaulted to "24" and "50" (also when the stored text is empty),
  enabled, holding exactly the legacy segments, each with a \<open>sensors\<close> array: 2 to 4
  generated sensors where the segment had none, its own array otherwise. So the array
  of a loaded segment is empty exactly where the legacy segment stored an empty one.
\<close>

theorem legacy_blob_becomes_one_tape:
  assumes "valid_rng g"
    and "b_segments parsed = Some segs" and "b_tapes parsed = None"
  shows "\<exists>t segs'.
           fst (loadSettings now (Some parsed) g) = Some (parsed\<lparr> b_tapes := Some [t], b_segments := None \<rparr>)
         \<and> jt_id t = 1 \<and> jt_name t = str_Tape @ ''1''
         \<and> jt_coordinates t = Some [] \<and> jt_contractNumber t = Some []
         \<and> jt_length t = Some (case b_tapeLength parsed of None \<Rightarrow> ''24''
                                | Some l \<Rightarrow> if l = [] then ''24'' else l)
         \<and> jt_width t = Some (case b_tapeWidth parsed of None \<Rightarrow> ''50''
                               | Some w \<Rightarrow> if w = [] then ''50'' else w)
         \<and> jt_enabled t = Switch True
         \<and> jt_segments t = Some segs'
         \<and> list_all2
              (\<lambda>s s'. \<exists>ss. s' = s\<lparr> js_sensors := Some ss \<rparr>
                         \<and> (case js_sensors s of None \<Rightarrow> 2 \<le> length ss \<and> length ss \<le> 4
                             | Some old \<Rightarrow> ss = old)
                         \<and> (ss = []) = (js_sensors s = Some []))
              segs segs'"
proof -
  define segs' where "segs' = fst (migrateSegments now segs g)"
  define g1 where "g1 = snd (migrateSegments now segs g)"
  define t where "t = \<lparr> jt_id = 1, jt_name = str_Tape @ ''1'',
                         jt_coordinates = Some [], jt_contractNumber = Some [],
                         jt_length = Some (or_string (b_tapeLength parsed) ''24''),
                         jt_width = Some (or_string (b_tapeWidth parsed) ''50''),
                         jt_segments = Some segs', jt_enabled = Switch True \<rparr>"
  have leg: "migrateLegacy now parsed g = (parsed\<lparr> b_tapes := Some [t], b_segments := None \<rparr>, g1)"
    using assms(2,3) by (simp add: migrateLegacy_def split_beta t_def segs'_def g1_def)
  have "current_tape t"
    by (simp add: current_tape_def t_def segs'_def migrateSegments_sensors)
  then have fixed: "migrateTapes now [t] g1 = ([t], g1)"
    by (simp add: migrateTapes_fixed)
  have res: "fst (loadSettings now (Some parsed) g)
               = Some (parsed\<lparr> b_tapes := Some [t], b_segments := None \<rparr>)"
    by (simp add: loadSettings_def migrate_def leg fixed)
  from migrateSegments_spec [OF assms(1), of segs now]
  have spec: "list_all2 (\<lambda>s s'. \<exists>ss. s' = s\<lparr> js_sensors := Some ss \<rparr>
            \<and> (case js_sensors s of None \<Rightarrow> 2 \<le> length ss \<and> length ss \<le> 4 | Some old \<Rightarrow> ss = old))
           segs segs'"
    by (simp add: segs'_def)
  have all: "list_all2
              (\<lambda>s s'. \<exists>ss. s' = s\<lparr> js_sensors := Some ss \<rparr>
                         \<and> (case js_sensors s of None \<Rightarrow> 2 \<le> length ss \<and> length ss \<le> 4
                             | Some old \<Rightarrow> ss = old)
                         \<and> (ss = []) = (js_sensors s = Some []))
              segs segs'"
    using spec
  proof (rule list_all2_mono)
    fix s s'
    assume "\<exists>ss. s' = s\<lparr> js_sensors := Some ss \<rparr>
            \<and> (case js_sensors s of None \<Rightarrow> 2 \<le> length ss \<and> length ss \<le> 4 | Some old \<Rightarrow> ss = old)"
    then obtain ss where ss: "s' = s\<lparr> js_sensors := Some ss \<rparr>"
      "case js_sensors s of None \<Rightarrow> 2 \<le> length ss \<and> length ss \<le> 4 | Some old \<Rightarrow> ss = old"
      by blast
    from ss(2) have "(ss = []) = (js_sensors s = Some [])" by (cases "js_sensors s") auto
    with ss show "\<exists>ss. s' = s\<lparr> js_sensors := Some ss \<rparr>
                         \<and> (case js_sensors s of None \<Rightarrow> 2 \<le> length ss \<and> length ss \<le> 4
                             | Some old \<Rightarrow> ss = old)
                         \<and> (ss = []) = (js_sensors s = Some [])" by blast
  qed
  show ?thesis
    apply (rule exI [of _ t], rule exI [of _ segs'])
    using res all by (simp add: t_def or_string_def)
qed

theorem legacy_blob_becomes_one_tape_witness:
  "valid_rng (\<lambda>n. 1 / 2)
   \<and> b_tapes sample_legacy_blob = None
   \<and> (\<exists>t. fst (loadSettings ''12:00:00'' (Some sample_legacy_blob) (\<lambda>n. 1 / 2))
              = Some (sample_legacy_blob\<lparr> b_tapes := Some [t], b_segments := None \<rparr>)
          \<and> jt_id t = 1 \<and> jt_length t = Some ''30'' \<and> jt_width t = Some ''50''
          \<and> jt_enabled t = Switch True)
   \<and> map_option
        (\<lambda>p. map (\<lambda>t. map (\<lambda>s. map_option length (js_sensors s)) (nullish (jt_segments t) []))
                 (nullish (b_tapes p) []))
        (fst (loadSettings ''12:00:00'' (Some sample_legacy_blob) (\<lambda>n. 1 / 2)))
       = Some [[Some 3, Some 1]]"
proof -
  have v: "valid_rng (\<lambda>n. 1 / 2)" by (simp add: valid_rng_def)
  have a: "b_segments sample_legacy_blob
             = Some [sample_jsegment 1 None, sample_jsegment 2 (Some [sample_sensor 2])]"
    and b: "b_tapes sample_legacy_blob = None"
    and l: "b_tapeLength sample_legacy_blob = Some ''30''"
    and w: "b_tapeWidth sample_legacy_blob = None"
    by (simp_all add: sample_legacy_blob_def sample_blob_def)
  have f: "fl (3 / 2) = 3 / 2"
    by (rule fl_exact [where e = 0 and m = 6755399441055744]) simp_all
  have n: "length (fst (createSensors now i k h)) = k" for now i k h
    by (simp add: createSensors_def Array_from_def map_rng_length)
  have e: "map_option
        (\<lambda>p. map (\<lambda>t. map (\<lambda>s. map_option length (js_sensors s)) (nullish (jt_segments t) []))
                 (nullish (b_tapes p) []))
        (fst (loadSettings ''12:00:00'' (Some sample_legacy_blob) (\<lambda>n. 1 / 2)))
       = Some [[Some 3, Some 1]]"
    by (simp add: loadSettings_def migrate_def migrateLegacy_def migrateTapes_def migrateTape_def
        migrateSegments_def migrateSegment_def nullish_def or_string_def split_beta Math_random_def
        sample_legacy_blob_def sample_blob_def sample_jsegment_def f n)
  from legacy_blob_becomes_one_tape [OF v a b, of "''12:00:00''"]
  have "\<exists>t. fst (loadSettings ''12:00:00'' (Some sample_legacy_blob) (\<lambda>n. 1 / 2))
              = Some (sample_legacy_blob\<lparr> b_tapes := Some [t], b_segments := None \<rparr>)
          \<and> jt_id t = 1 \<and> jt_length t = Some ''30'' \<and> jt_width t = Some ''50''
          \<and> jt_enabled t = Switch True"
    unfolding l w by auto
  with v b e show ?thesis by blast
qed

subsection \<open>C8: migration is idempotent\<close>

text \<open>
  Claim C8: on a snapshot that has a \<open>tapes\<close> array and a \<open>sensors\<close> array on every
  segment, migrating the migrated snapshot returns it unchanged, for \<open>loadSettings\<close>
  as a whole and for \<open>migrateTapes\<close>; the first migration of such a snapshot draws no
  random number, and the second draws none either.
\<close>

theorem migration_idempotent:
  assumes "b_tapes S = Some ts"
    and "\<forall>t \<in> set ts. \<forall>s \<in> set (nullish (jt_segments t) []). js_sensors s \<noteq> None"
  shows "loadSettings now' (fst (loadSettings now (Some S) g)) g' = (fst (loadSettings now (Some S) g), g')
       \<and> migrateTapes now' (fst (migrateTapes now ts g)) g' = (fst (migrateTapes now ts g), g')
       \<and> snd (loadSettings now (Some S) g) = g"
proof (intro conjI)
  show "migrateTapes now' (fst (migrateTapes now ts g)) g' = (fst (migrateTapes now ts g), g')"
    by (simp add: migrateTapes_fixed migrateTapes_current)
  show "loadSettings now' (fst (loadSettings now (Some S) g)) g' = (fst (loadSettings now (Some S) g), g')"
    by (simp add: loadSettings_def split_beta migrate_idem)
  have "snd (migrateTapes now ts g) = g"
    unfolding migrateTapes_def
  proof (rule map_rng_no_draw)
    fix t :: JTape and h :: rng assume "t \<in> set ts"
    with assms(2) have "list_all has_sensors (nullish (jt_segments t) [])"
      by (simp add: list_all_iff has_sensors_def)
    then show "snd (migrateTape now t h) = h" by (rule migrateTape_no_draw)
  qed
  then show "snd (loadSettings now (Some S) g) = g"
    using assms(1) by (simp add: loadSettings_def migrate_def migrateLegacy_tapes split_beta)
qed

theorem migration_idempotent_witness:
  "fst (loadSettings ''12:00:00''
          (Some (sample_blob None (Some [sample_jtape 1 (Some [sample_jsegment 1 (Some [sample_sensor 1])])])))
          (\<lambda>n. 0))
     = Some (sample_blob None
               (Some [(sample_jtape 1 (Some [sample_jsegment 1 (Some [sample_sensor 1])]))
                        \<lparr> jt_coordinates := Some [], jt_contractNumber := Some [],
                          jt_width := Some ''50'', jt_enabled := Switch True \<rparr>]))
   \<and> loadSettings ''12:00:05''
         (fst (loadSettings ''12:00:00''
                 (Some (sample_blob None (Some [sample_jtape 1 (Some [sample_jsegment 1 (Some [sample_sensor 1])])])))
                 (\<lambda>n. 0)))
         (\<lambda>n. 1 / 2)
     = (fst (loadSettings ''12:00:00''
                 (Some (sample_blob None (Some [sample_jtape 1 (Some [sample_jsegment 1 (Some [sample_sensor 1])])])))
                 (\<lambda>n. 0)),
        \<lambda>n. 1 / 2)"
proof -
  let ?S = "sample_blob None (Some [sample_jtape 1 (Some [sample_jsegment 1 (Some [sample_sensor 1])])])"
  have a: "b_tapes ?S = Some [sample_jtape 1 (Some [sample_jsegment 1 (Some [sample_sensor 1])])]"
    by (simp add: sample_blob_def)
  have b: "\<forall>t \<in> set [sample_jtape 1 (Some [sample_jsegment 1 (Some [sample_sensor 1])])].
             \<forall>s \<in> set (nullish (jt_segments t) []). js_sensors s \<noteq> None"
    by (simp add: sample_jtape_def sample_jsegment_def nullish_def)
  have c: "fst (loadSettings ''12:00:00'' (Some ?S) (\<lambda>n. 0))
     = Some (sample_blob None
               (Some [(sample_jtape 1 (Some [sample_jsegment 1 (Some [sample_sensor 1])]))
                        \<lparr> jt_coordinates := Some [], jt_contractNumber := Some [],
                          jt_width := Some ''50'', jt_enabled := Switch True \<rparr>]))"
    by (simp add: loadSettings_def migrate_def migrateLegacy_def migrateTapes_def migrateTape_def
        migrateSegments_def migrateSegment_def nullish_def sample_blob_def sample_jtape_def
        sample_jsegment_def)
  from migration_idempotent [OF a b, of "''12:00:05''" "''12:00:00''" "\<lambda>n. 0" "\<lambda>n. 1 / 2"] c
  show ?thesis by blast
qed

subsection \<open>C9: acknowledging an alert\<close>

text \<open>
  Claim C9: \<open>acknowledgeAlert i\<close> sets \<open>acknowledged\<close> on the alerts with id \<open>i\<close> and
  changes no other field of any alert; an acknowledged alert stays acknowledged through
  any sequence of acknowledgements; acknowledging an alert that is already acknowledged
  returns the same list, and acknowledging twice is the same as acknowledging once.
\<close>

theorem acknowledgeAlert_one_way_idempotent:
  "map alert_id (acknowledgeAlert i alerts) = map alert_id alerts
   \<and> map alert_timestamp (acknowledgeAlert i alerts) = map alert_timestamp alerts
   \<and> map alert_severity (acknowledgeAlert i alerts) = map alert_severity alerts
   \<and> map alert_message (acknowledgeAlert i alerts) = map alert_message alerts
   \<and> map alert_acknowledged (acknowledgeAlert i alerts)
       = map (\<lambda>a. alert_acknowledged a \<or> alert_id a = i) alerts
   \<and> list_all2 (\<lambda>a a'. alert_acknowledged a \<longrightarrow> alert_acknowledged a')
        alerts (fold acknowledgeAlert ids alerts)
   \<and> ((\<forall>a \<in> set alerts. alert_id a = i \<longrightarrow> alert_acknowledged a)
        \<longrightarrow> acknowledgeAlert i alerts = alerts)
   \<and> acknowledgeAlert i (acknowledgeAlert i alerts) = acknowledgeAlert i alerts"
proof (intro conjI impI)
  show "list_all2 (\<lambda>a a'. alert_acknowledged a \<longrightarrow> alert_acknowledged a')
        alerts (fold acknowledgeAlert ids alerts)"
    by (rule ack_fold_mono)
next
  assume "\<forall>a \<in> set alerts. alert_id a = i \<longrightarrow> alert_acknowledged a"
  then show "acknowledgeAlert i alerts = alerts"
    unfolding acknowledgeAlert_def by (intro map_idI) auto
qed (simp_all add: acknowledgeAlert_def)

theorem acknowledgeAlert_one_way_idempotent_witness:
  "acknowledgeAlert 2 [sample_alert 1 True, sample_alert 2 False, sample_alert 3 False]
     = [sample_alert 1 True, sample_alert 2 True, sample_alert 3 False]
   \<and> acknowledgeAlert 1 [sample_alert 1 True, sample_alert 2 False, sample_alert 3 False]
     = [sample_alert 1 True, sample_alert 2 False, sample_alert 3 False]
   \<and> map alert_acknowledged
        (fold acknowledgeAlert [3, 1] [sample_alert 1 True, sample_alert 2 False, sample_alert 3 False])
     = [True, False, True]"
  using acknowledgeAlert_one_way_idempotent
    [of 1 "[sample_alert 1 True, sample_alert 2 False, sample_alert 3 False]" "[3, 1]"]
  by (simp add: acknowledgeAlert_def sample_alert_def)

subsection \<open>C10: commands addressed to an absent id\<close>

text \<open>
  Claim C10: a command addressed to an id that does not occur is a no-op. If no tape has
  id \<open>tapeId\<close> then \<open>toggleTape\<close>, \<open>removeTape\<close>, \<open>updateTapeField\<close> and
  \<open>addSegmentToTape\<close> return the tapes unchanged (the last one without drawing a random
  number); if no segment of a tape with id \<open>tapeId\<close> has id \<open>segId\<close> then
  \<open>toggleSegment\<close>, \<open>setSegPower\<close>, \<open>setSegTargetTemp\<close> and
  \<open>removeSegmentFromTape\<close> return the tapes unchanged; if no alert has id \<open>i\<close> then
  \<open>acknowledgeAlert\<close> returns the alerts unchanged. Each command is a total function
  whose only result is the next state: there is no error to signal.
\<close>

theorem absent_id_is_noop:
  "(tapeId \<notin> tape_id ` set tapes \<longrightarrow>
      toggleTape tapeId tapes = tapes
    \<and> removeTape tapeId tapes = tapes
    \<and> updateTapeField tapeId field v tapes = tapes
    \<and> addSegmentToTape now tapeId tapes g = (tapes, g))
  \<and> ((\<forall>t \<in> set tapes. tape_id t = tapeId \<longrightarrow> segId \<notin> seg_id ` set (tape_segments t)) \<longrightarrow>
      toggleSegment tapeId segId tapes = tapes
    \<and> setSegPower tapeId segId pw tapes = tapes
    \<and> setSegTargetTemp tapeId segId tt tapes = tapes
    \<and> removeSegmentFromTape tapeId segId tapes = tapes)
  \<and> (i \<notin> alert_id ` set alerts \<longrightarrow> acknowledgeAlert i alerts = alerts)"
proof (intro conjI impI)
  assume "tapeId \<notin> tape_id ` set tapes"
  then have no: "\<And>t. t \<in> set tapes \<Longrightarrow> tape_id t \<noteq> tapeId" by auto
  show "toggleTape tapeId tapes = tapes"
    unfolding toggleTape_def by (rule map_idI) (simp add: no)
  show "removeTape tapeId tapes = tapes"
    unfolding removeTape_def using no by (simp add: filter_idI)
  show "updateTapeField tapeId field v tapes = tapes"
    unfolding updateTapeField_def by (rule map_idI) (simp add: no)
  show "addSegmentToTape now tapeId tapes g = (tapes, g)"
    unfolding addSegmentToTape_def Let_def by (rule map_rng_id) (simp add: no)
next
  assume "\<forall>t \<in> set tapes. tape_id t = tapeId \<longrightarrow> segId \<notin> seg_id ` set (tape_segments t)"
  then have no: "\<And>t s. t \<in> set tapes \<Longrightarrow> tape_id t = tapeId \<Longrightarrow> s \<in> set (tape_segments t)
                   \<Longrightarrow> seg_id s \<noteq> segId" by auto
  show "toggleSegment tapeId segId tapes = tapes"
    unfolding toggleSegment_def
  proof (rule map_idI)
    fix t assume t: "t \<in> set tapes"
    have "tape_id t = tapeId \<Longrightarrow>
            map (\<lambda>s. if seg_id s = segId
                     then s\<lparr> seg_enabled := \<not> seg_enabled s,
                             seg_status := (if \<not> seg_enabled s then Normal else Off) \<rparr>
                     else s) (tape_segments t) = tape_segments t"
      by (rule map_idI) (simp add: no [OF t])
    then show "(if tape_id t = tapeId
                then t\<lparr> tape_segments :=
                         map (\<lambda>s. if seg_id s = segId
                                  then s\<lparr> seg_enabled := \<not> seg_enabled s,
                                          seg_status := (if \<not> seg_enabled s then Normal else Off) \<rparr>
                                  else s) (tape_segments t) \<rparr>
                else t) = t" by simp
  qed
  show "setSegPower tapeId segId pw tapes = tapes"
    unfolding setSegPower_def
  proof (rule map_idI)
    fix t assume t: "t \<in> set tapes"
    have "tape_id t = tapeId \<Longrightarrow>
            map (\<lambda>s. if seg_id s = segId then s\<lparr> seg_power := pw \<rparr> else s) (tape_segments t)
            = tape_segments t"
      by (rule map_idI) (simp add: no [OF t])
    then show "(if tape_id t = tapeId
                then t\<lparr> tape_segments :=
                         map (\<lambda>s. if seg_id s = segId then s\<lparr> seg_power := pw \<rparr> else s)
                           (tape_segments t) \<rparr>
                else t) = t" by simp
  qed
  show "setSegTargetTemp tapeId segId tt tapes = tapes"
    unfolding setSegTargetTemp_def
  proof (rule map_idI)
    fix t assume t: "t \<in> set tapes"
    have "tape_id t = tapeId \<Longrightarrow>
            map (\<lambda>s. if seg_id s = segId then s\<lparr> seg_targetTemp := tt \<rparr> else s) (tape_segments t)
            = tape_segments t"
      by (rule map_idI) (simp add: no [OF t])
    then show "(if tape_id t = tapeId
                then t\<lparr> tape_segments :=
                         map (\<lambda>s. if seg_id s = segId then s\<lparr> seg_targetTemp := tt \<rparr> else s)
                           (tape_segments t) \<rparr>
                else t) = t" by simp
  qed
  show "removeSegmentFromTape tapeId segId tapes = tapes"
    unfolding removeSegmentFromTape_def
  proof (rule map_idI)
    fix t assume t: "t \<in> set tapes"
    have "tape_id t = tapeId \<Longrightarrow>
            filter (\<lambda>s. seg_id s \<noteq> segId) (tape_segments t) = tape_segments t"
      by (rule filter_idI) (simp add: no [OF t])
    then show "(if tape_id t = tapeId
                then t\<lparr> tape_segments :=
                         (if length (tape_segments t) > 1
                          then filter (\<lambda>s. seg_id s \<noteq> segId) (tape_segments t)
                          else tape_segments t) \<rparr>
                else t) = t" by simp
  qed
next
  assume "i \<notin> alert_id ` set alerts"
  then have "\<And>a. a \<in> set alerts \<Longrightarrow> alert_id a \<noteq> i" by auto
  then show "acknowledgeAlert i alerts = alerts"
    unfolding acknowledgeAlert_def by (simp add: map_idI)
qed

theorem absent_id_is_noop_witness:
  "7 \<notin> tape_id ` set [sample_tape 1 True [sample_segment 1 True 2], sample_tape 2 True [sample_segment 2 False 3]]
   \<and> toggleTape 7 [sample_tape 1 True [sample_segment 1 True 2], sample_tape 2 True [sample_segment 2 False 3]]
       = [sample_tape 1 True [sample_segment 1 True 2], sample_tape 2 True [sample_segment 2 False 3]]
   \<and> removeTape 7 [sample_tape 1 True [sample_segment 1 True 2], sample_tape 2 True [sample_segment 2 False 3]]
       = [sample_tape 1 True [sample_segment 1 True 2], sample_tape 2 True [sample_segment 2 False 3]]
   \<and> addSegmentToTape ''12:00:00'' 7
        [sample_tape 1 True [sample_segment 1 True 2], sample_tape 2 True [sample_segment 2 False 3]] (\<lambda>n. 0)
       = ([sample_tape 1 True [sample_segment 1 True 2], sample_tape 2 True [sample_segment 2 False 3]], \<lambda>n. 0)
   \<and> toggleSegment 1 2 [sample_tape 1 True [sample_segment 1 True 2], sample_tape 2 True [sample_segment 2 False 3]]
       = [sample_tape 1 True [sample_segment 1 True 2], sample_tape 2 True [sample_segment 2 False 3]]
   \<and> removeSegmentFromTape 1 2 [sample_tape 1 True [sample_segment 1 True 2], sample_tape 2 True [sample_segment 2 False 3]]
       = [sample_tape 1 True [sample_segment 1 True 2], sample_tape 2 True [sample_segment 2 False 3]]
   \<and> acknowledgeAlert 4 [sample_alert 1 True, sample_alert 2 False]
       = [sample_alert 1 True, sample_alert 2 False]"
  using absent_id_is_noop
    [of 7 "[sample_tape 1 True [sample_segment 1 True 2], sample_tape 2 True [sample_segment 2 False 3]]"
        FName "''x''" "''12:00:00''" "\<lambda>n. 0" 2 60 5 4 "[sample_alert 1 True, sample_alert 2 False]"]
        absent_id_is_noop
    [of 1 "[sample_tape 1 True [sample_segment 1 True 2], sample_tape 2 True [sample_segment 2 False 3]]"
        FName "''x''" "''12:00:00''" "\<lambda>n. 0" 2 60 5 4 "[sample_alert 1 True, sample_alert 2 False]"]
  by (simp add: sample_tape_def sample_segment_def sample_alert_def)

end
